theory Spec2Isabelle
  imports Main "HOL-Library.Sublist" "HOL-Library.Char_ord" "HOL-Library.Multiset"
begin

section \<open>Go strings\<close>

text \<open>
  A Go string is a sequence of bytes; \<^typ>\<open>string\<close> is a list of 8-bit characters.
  The functions of package \<open>strings\<close> that the scrapers call are modelled on bytes.
\<close>

text \<open>
  \<open>strings.ToLower\<close>: the standard library walks the bytes and, for a string of
  ASCII bytes, adds \<open>'a' - 'A'\<close> to every byte in \<open>'A'..'Z'\<close>. That path is modelled
  exactly. Bytes from \<open>0x80\<close> on are kept as they are (Go sends a string holding such
  a byte through the Unicode case tables instead); every keyword, pattern and example of
  this development is ASCII.
\<close>

definition lowerByte :: "char \<Rightarrow> char" where
  "lowerByte c =
     (if CHR ''A'' \<le> c \<and> c \<le> CHR ''Z'' then char_of (of_char c + (32::nat)) else c)"

definition ToLower :: "string \<Rightarrow> string" where
  "ToLower s = map lowerByte s"

text \<open>
  \<open>strings.Contains(s, substr)\<close>: \<open>substr\<close> occurs in \<open>s\<close> as a contiguous run of
  bytes. The empty string occurs in every string.
\<close>

fun Contains :: "string \<Rightarrow> string \<Rightarrow> bool" where
  "Contains [] substr = (substr = [])"
| "Contains (c # s) substr = (prefix substr (c # s) \<or> Contains s substr)"

text \<open>
  \<open>strings.ReplaceAll(s, old, new)\<close>: the non-overlapping occurrences of \<open>old\<close>,
  found from the left, are replaced by \<open>new\<close>. For an empty \<open>old\<close> Go inserts
  \<open>new\<close> before every character and at the end; the scrapers only call it with
  \<open>old = " "\<close>.
\<close>

function ReplaceAll :: "string \<Rightarrow> string \<Rightarrow> string \<Rightarrow> string" where
  "ReplaceAll [] old new = (if old = [] then new else [])"
| "ReplaceAll (c # s) old new =
     (if old = [] then new @ c # ReplaceAll s old new
      else if prefix old (c # s) then new @ ReplaceAll (drop (length old) (c # s)) old new
      else c # ReplaceAll s old new)"
  by pat_completeness auto
termination
  by (relation "measure (\<lambda>(s, old, new). length s)") (auto simp: Suc_diff_le)

section \<open>Regular expressions of the classifier\<close>

text \<open>
  The patterns handed to \<open>regexp.MatchString\<close> are sequences of single characters and
  character classes, each taken once, optionally (\<open>?\<close>) or any number of times (\<open>*\<close>).
  \<open>MatchString\<close> reports whether the pattern matches somewhere in the text. Its second
  result, the error of a pattern that does not compile, is dropped by the callers, and
  every pattern they pass compiles. The atoms of the patterns are ASCII, so matching
  bytes gives what Go's matching of code points gives.
\<close>

datatype atom = Lit char | Class "char list"

datatype item = One atom | Opt atom | Star atom

fun accepts :: "atom \<Rightarrow> char \<Rightarrow> bool" where
  "accepts (Lit a) c = (c = a)"
| "accepts (Class cs) c = (c \<in> set cs)"

fun matchHere :: "item list \<Rightarrow> string \<Rightarrow> bool" where
  "matchHere [] s = True"
| "matchHere (One a # r) [] = False"
| "matchHere (One a # r) (c # s) = (accepts a c \<and> matchHere r s)"
| "matchHere (Opt a # r) [] = matchHere r []"
| "matchHere (Opt a # r) (c # s) = ((accepts a c \<and> matchHere r s) \<or> matchHere r (c # s))"
| "matchHere (Star a # r) [] = matchHere r []"
| "matchHere (Star a # r) (c # s) =
     ((accepts a c \<and> matchHere (Star a # r) s) \<or> matchHere r (c # s))"

fun MatchString :: "item list \<Rightarrow> string \<Rightarrow> bool" where
  "MatchString p [] = matchHere p []"
| "MatchString p (c # s) = (matchHere p (c # s) \<or> MatchString p s)"

definition lits :: "string \<Rightarrow> item list" where
  "lits s = map (\<lambda>c. One (Lit c)) s"

text \<open>The Perl class \<open>\s\<close> of Go's regexp syntax: tab, newline, form feed, return, space.\<close>

definition space_class :: "char list" where
  "space_class = [CHR 0x09, CHR 0x0A, CHR 0x0C, CHR 0x0D, CHR '' '']"

text \<open>The class \<open>[\s-]\<close>.\<close>

definition space_or_dash :: "char list" where
  "space_or_dash = space_class @ [CHR ''-'']"

section \<open>The scraper of 7advanced_remote_scraper.go\<close>

record RemoteJob =
  ID :: string
  Platform :: string
  Title :: string
  Company :: string
  Location :: string
  Description :: string
  Salary :: string
  PostedDate :: string
  JobType :: string
  Experience :: string
  Tags :: "string list"
  IsRemote :: bool
  IsFresher :: bool
  URL :: string
  ApplyURL :: string

text \<open>
  The fields of \<open>JobScraper\<close> that classification and deduplication read and write.
  The mutex, the rate limiter, the HTTP client, the user agents and the job titles
  take no part in them. \<open>logged\<close> collects the arguments (title, company, platform)
  of the \<open>log.Printf\<close> call of \<open>addJob\<close>, in the order of the calls.
\<close>

record JobScraper =
  jobs :: "RemoteJob list"
  fresherKeywords :: "string list"
  remoteKeywords :: "string list"
  excludeKeywords :: "string list"
  seenJobs :: "string \<rightharpoonup> bool"
  logged :: "(string \<times> string \<times> string) list"

definition NewJobScraper :: JobScraper where
  "NewJobScraper = \<lparr>
     jobs = [],
     fresherKeywords =
       [''entry level'', ''junior'', ''fresher'', ''graduate'', ''trainee'', ''intern'',
        ''associate'', ''no experience'', ''0-1 years'', ''0-2 years'', ''recent graduate'',
        ''new grad'', ''entry-level'', ''beginner'', ''starting'', ''career starter'',
        ''apprentice''],
     remoteKeywords =
       [''remote'', ''work from home'', ''telecommute'', ''distributed'', ''virtual'',
        ''home office'', ''anywhere'', ''location independent'', ''wfh'', ''remote-first'',
        ''fully remote'', ''100% remote'', ''remote work'', ''remote position''],
     excludeKeywords =
       [''senior'', ''lead'', ''principal'', ''architect'', ''manager'', ''director'',
        ''head of'', ''5+ years'', ''10+ years'', ''experienced'', ''expert'', ''specialist'',
        ''chief'', ''3+ years'', ''4+ years'', ''minimum 3'', ''minimum 5'', ''at least 3'',
        ''at least 5''],
     seenJobs = Map.empty,
     logged = [] \<rparr>"

text \<open>
  The five patterns of \<open>isFresherJob\<close>:
  \<^verbatim>\<open>0[\s-]?[12]?\s*years?\<close>, \<^verbatim>\<open>entry[\s-]?level\<close>, \<^verbatim>\<open>new[\s-]?grad\<close>,
  \<^verbatim>\<open>no[\s-]?experience\<close>, \<^verbatim>\<open>recent[\s-]?graduate\<close>.
\<close>

definition patterns :: "item list list" where
  "patterns =
     [ [One (Lit CHR ''0''), Opt (Class space_or_dash), Opt (Class ''12''), Star (Class space_class)]
         @ lits ''year'' @ [Opt (Lit CHR ''s'')],
       lits ''entry'' @ [Opt (Class space_or_dash)] @ lits ''level'',
       lits ''new'' @ [Opt (Class space_or_dash)] @ lits ''grad'',
       lits ''no'' @ [Opt (Class space_or_dash)] @ lits ''experience'',
       lits ''recent'' @ [Opt (Class space_or_dash)] @ lits ''graduate'' ]"

text \<open>
  \<open>isFresherJob\<close>: the three loops return at the first hit, so each is the question
  whether some element of the list hits.
\<close>

definition isFresherJob :: "JobScraper \<Rightarrow> string \<Rightarrow> string \<Rightarrow> bool" where
  "isFresherJob js title description =
     (let combined = ToLower (title @ '' '' @ description) in
      if list_ex (Contains combined) (excludeKeywords js) then False
      else if list_ex (Contains combined) (fresherKeywords js) then True
      else if list_ex (\<lambda>pattern. MatchString pattern combined) patterns then True
      else False)"

definition isRemoteJob :: "JobScraper \<Rightarrow> string \<Rightarrow> string \<Rightarrow> string \<Rightarrow> bool" where
  "isRemoteJob js title location description =
     (let combined = ToLower (title @ '' '' @ location @ '' '' @ description) in
      if list_ex (Contains combined) (remoteKeywords js) then True else False)"

text \<open>\<open>generateJobID\<close>: \<open>fmt.Sprintf("%s_%s", ...)\<close> of the two normalised strings.\<close>

definition generateJobID :: "string \<Rightarrow> string \<Rightarrow> string" where
  "generateJobID title company =
     ReplaceAll (ToLower company) '' '' ''_'' @ ''_'' @ ReplaceAll (ToLower title) '' '' ''_''"

text \<open>
  Go's index expression \<open>js.seenJobs[jobID]\<close> yields \<open>false\<close>, the zero value, for a
  key that the map does not hold.
\<close>

definition isSeen :: "'a JobScraper_scheme \<Rightarrow> string \<Rightarrow> bool" where
  "isSeen js jobID = (case seenJobs js jobID of None \<Rightarrow> False | Some b \<Rightarrow> b)"

text \<open>
  \<open>addJob\<close>, the body between \<open>Lock\<close> and the deferred \<open>Unlock\<close>. The method returns
  nothing: what it does shows in the scraper's fields and in the log.
\<close>

definition addJob :: "JobScraper \<Rightarrow> RemoteJob \<Rightarrow> JobScraper" where
  "addJob js job =
     (let jobID = generateJobID (Title job) (Company job) in
      if \<not> isSeen js jobID
      then js\<lparr> jobs := jobs js @ [job\<lparr>ID := jobID\<rparr>],
                seenJobs := (seenJobs js)(jobID \<mapsto> True),
                logged := logged js @ [(Title job, Company job, Platform job)] \<rparr>
      else js)"

text \<open>The identity \<open>addJob\<close> computes for a record.\<close>

abbreviation jobID_of :: "RemoteJob \<Rightarrow> string" where
  "jobID_of job \<equiv> generateJobID (Title job) (Company job)"

text \<open>A scraper that has received the calls \<open>addJob\<close> of \<open>history\<close>, one after the other.\<close>

definition run :: "RemoteJob list \<Rightarrow> JobScraper" where
  "run history = foldl addJob NewJobScraper history"

text \<open>The zero value of \<open>RemoteJob\<close>: the fields a struct literal leaves out.\<close>

definition RemoteJob_zero :: RemoteJob where
  "RemoteJob_zero = \<lparr> ID = [], Platform = [], Title = [], Company = [], Location = [],
     Description = [], Salary = [], PostedDate = [], JobType = [], Experience = [],
     Tags = [], IsRemote = False, IsFresher = False, URL = [], ApplyURL = [] \<rparr>"

text \<open>Records used as examples.\<close>

definition acme_junior_dev :: RemoteJob where
  "acme_junior_dev = RemoteJob_zero\<lparr> Platform := ''RemoteOK'', Title := ''Junior Dev'',
     Company := ''Acme'', Location := ''Remote'', URL := ''https://remoteok.io'' \<rparr>"

definition acme_junior_dev_again :: RemoteJob where
  "acme_junior_dev_again = RemoteJob_zero\<lparr> Platform := ''FlexJobs'', Title := ''Junior Dev'',
     Company := ''Acme'', Location := ''Berlin'', Description := ''entry level'',
     Salary := ''$45,000'', PostedDate := ''2024-01-02'', URL := ''https://flexjobs.com'' \<rparr>"

definition acme_junior__dev :: RemoteJob where
  "acme_junior__dev = RemoteJob_zero\<lparr> Platform := ''JustRemote'', Title := ''Dev'',
     Company := ''Acme Junior'', Location := ''Remote'', URL := ''https://justremote.co'' \<rparr>"

definition globex_trainee :: RemoteJob where
  "globex_trainee = RemoteJob_zero\<lparr> Platform := ''Remote.co'', Title := ''Trainee'',
     Company := ''Globex'', Location := ''Remote'', URL := ''https://remote.co'' \<rparr>"

subsection \<open>The \<open>OnHTML\<close> callbacks\<close>

text \<open>
  Each scrape function registers a callback that colly runs once for every element of
  the page that fits the selector. A callback is modelled from the point where its local
  variables hold the trimmed texts of the element; \<open>today\<close> is the value of
  \<open>time.Now().Format("2006-01-02")\<close> at the call.
\<close>

definition scrapeRemoteOK_OnHTML ::
  "string \<Rightarrow> JobScraper \<Rightarrow> string \<Rightarrow> string \<Rightarrow> string \<Rightarrow> JobScraper" where
  "scrapeRemoteOK_OnHTML today js title company tags =
     (if title \<noteq> [] \<and> company \<noteq> [] then
        if isFresherJob js title tags
        then addJob js (RemoteJob_zero\<lparr> Platform := ''RemoteOK'', Title := title,
               Company := company, Location := ''Remote'', Description := tags,
               IsRemote := True, IsFresher := True, URL := ''https://remoteok.io'',
               PostedDate := today \<rparr>)
        else js
      else js)"

definition scrapeWeWorkRemotely_OnHTML ::
  "string \<Rightarrow> JobScraper \<Rightarrow> string \<Rightarrow> string \<Rightarrow> string \<Rightarrow> JobScraper" where
  "scrapeWeWorkRemotely_OnHTML today js title company location =
     (if title \<noteq> [] \<and> company \<noteq> [] then
        if isFresherJob js title [] \<and> isRemoteJob js title location []
        then addJob js (RemoteJob_zero\<lparr> Platform := ''WeWorkRemotely'', Title := title,
               Company := company, Location := location,
               IsRemote := True, IsFresher := True, URL := ''https://weworkremotely.com'',
               PostedDate := today \<rparr>)
        else js
      else js)"

definition scrapeFlexJobs_OnHTML ::
  "string \<Rightarrow> JobScraper \<Rightarrow> string \<Rightarrow> string \<Rightarrow> string \<Rightarrow> JobScraper" where
  "scrapeFlexJobs_OnHTML today js title company location =
     (if title \<noteq> [] \<and> company \<noteq> [] then
        if isFresherJob js title [] \<and> isRemoteJob js title location []
        then addJob js (RemoteJob_zero\<lparr> Platform := ''FlexJobs'', Title := title,
               Company := company, Location := location,
               IsRemote := True, IsFresher := True, URL := ''https://flexjobs.com'',
               PostedDate := today \<rparr>)
        else js
      else js)"

definition scrapeJustRemote_OnHTML ::
  "string \<Rightarrow> JobScraper \<Rightarrow> string \<Rightarrow> string \<Rightarrow> JobScraper" where
  "scrapeJustRemote_OnHTML today js title company =
     (if title \<noteq> [] \<and> company \<noteq> [] then
        if isFresherJob js title []
        then addJob js (RemoteJob_zero\<lparr> Platform := ''JustRemote'', Title := title,
               Company := company, Location := ''Remote'',
               IsRemote := True, IsFresher := True, URL := ''https://justremote.co'',
               PostedDate := today \<rparr>)
        else js
      else js)"

definition scrapeRemoteCo_OnHTML ::
  "string \<Rightarrow> JobScraper \<Rightarrow> string \<Rightarrow> string \<Rightarrow> JobScraper" where
  "scrapeRemoteCo_OnHTML today js title company =
     (if title \<noteq> [] \<and> company \<noteq> [] then
        if isFresherJob js title []
        then addJob js (RemoteJob_zero\<lparr> Platform := ''Remote.co'', Title := title,
               Company := company, Location := ''Remote'',
               IsRemote := True, IsFresher := True, URL := ''https://remote.co'',
               PostedDate := today \<rparr>)
        else js
      else js)"

text \<open>
  One element handed to one of the five callbacks: the day of the call and the trimmed
  texts, title and company first.
\<close>

datatype listing =
    RemoteOK string string string string
  | WeWorkRemotely string string string string
  | FlexJobs string string string string
  | JustRemote string string string
  | RemoteCo string string string

fun OnHTML :: "JobScraper \<Rightarrow> listing \<Rightarrow> JobScraper" where
  "OnHTML js (RemoteOK today title company tags) = scrapeRemoteOK_OnHTML today js title company tags"
| "OnHTML js (WeWorkRemotely today title company location) =
     scrapeWeWorkRemotely_OnHTML today js title company location"
| "OnHTML js (FlexJobs today title company location) =
     scrapeFlexJobs_OnHTML today js title company location"
| "OnHTML js (JustRemote today title company) = scrapeJustRemote_OnHTML today js title company"
| "OnHTML js (RemoteCo today title company) = scrapeRemoteCo_OnHTML today js title company"

fun listing_title :: "listing \<Rightarrow> string" where
  "listing_title (RemoteOK today title company tags) = title"
| "listing_title (WeWorkRemotely today title company location) = title"
| "listing_title (FlexJobs today title company location) = title"
| "listing_title (JustRemote today title company) = title"
| "listing_title (RemoteCo today title company) = title"

fun listing_company :: "listing \<Rightarrow> string" where
  "listing_company (RemoteOK today title company tags) = company"
| "listing_company (WeWorkRemotely today title company location) = company"
| "listing_company (FlexJobs today title company location) = company"
| "listing_company (JustRemote today title company) = company"
| "listing_company (RemoteCo today title company) = company"

subsection \<open>Concurrent callers of \<open>addJob\<close>\<close>

text \<open>
  \<open>ScrapeAllSources\<close> starts one goroutine for each source, and the callbacks of all of them
  call \<open>addJob\<close> on the one scraper. A caller is at one of the statements of \<open>addJob\<close>:
  before \<open>jobsMutex.Lock()\<close>, at the test \<open>!js.seenJobs[jobID]\<close>, at the \<open>append\<close>
  (with the assignment to \<open>job.ID\<close> before it), at the assignment to \<open>seenJobs\<close>, at
  \<open>log.Printf\<close>, at the deferred \<open>Unlock()\<close>, or it has returned.
\<close>

datatype pc = AtLock | AtTest | AtAppend | AtMark | AtLog | AtUnlock | Returned

text \<open>
  The shared scraper, the state of its mutex (true while locked) and the callers, each
  with the place it is at and the record it was called with.
\<close>

record system =
  scraper :: JobScraper
  jobsMutex :: bool
  callers :: "(pc \<times> RemoteJob) list"

definition start :: "JobScraper \<Rightarrow> RemoteJob list \<Rightarrow> system" where
  "start js calls = \<lparr> scraper = js, jobsMutex = False, callers = map (Pair AtLock) calls \<rparr>"

text \<open>
  One statement of caller \<open>i\<close>. \<open>Lock\<close> can only be passed while the mutex is free;
  a caller that waits for the mutex, or that has returned, has no step.
\<close>

definition goto :: "nat \<Rightarrow> pc \<Rightarrow> system \<Rightarrow> system" where
  "goto i l s = s\<lparr> callers := (callers s)[i := (l, snd (callers s ! i))] \<rparr>"

definition step :: "nat \<Rightarrow> system \<Rightarrow> system option" where
  "step i s =
     (if i < length (callers s) then
        let job = snd (callers s ! i); jobID = generateJobID (Title job) (Company job);
            js = scraper s
        in
        case fst (callers s ! i) of
          AtLock \<Rightarrow> if jobsMutex s then None else Some (goto i AtTest (s\<lparr> jobsMutex := True \<rparr>))
        | AtTest \<Rightarrow> Some (goto i (if \<not> isSeen js jobID then AtAppend else AtUnlock) s)
        | AtAppend \<Rightarrow>
            Some (goto i AtMark (s\<lparr> scraper := js\<lparr> jobs := jobs js @ [job\<lparr>ID := jobID\<rparr>] \<rparr> \<rparr>))
        | AtMark \<Rightarrow>
            Some (goto i AtLog (s\<lparr> scraper := js\<lparr> seenJobs := (seenJobs js)(jobID \<mapsto> True) \<rparr> \<rparr>))
        | AtLog \<Rightarrow>
            Some (goto i AtUnlock
              (s\<lparr> scraper := js\<lparr> logged := logged js @ [(Title job, Company job, Platform job)] \<rparr> \<rparr>))
        | AtUnlock \<Rightarrow> Some (goto i Returned (s\<lparr> jobsMutex := False \<rparr>))
        | Returned \<Rightarrow> None
      else None)"

text \<open>
  An interleaving is a schedule: the list of the callers that take the steps. \<open>exec\<close>
  is \<open>None\<close> when the schedule asks a caller for a step that it does not have.
\<close>

fun exec :: "nat list \<Rightarrow> system \<Rightarrow> system option" where
  "exec [] s = Some s"
| "exec (i # schedule) s = (case step i s of None \<Rightarrow> None | Some s' \<Rightarrow> exec schedule s')"

definition finished :: "system \<Rightarrow> bool" where
  "finished s = list_all (\<lambda>c. fst c = Returned) (callers s)"

text \<open>
  What the scraper looks like while a caller is inside \<open>addJob\<close>, told from the scraper
  \<open>base\<close> the caller found when it took the mutex.
\<close>

definition inside :: "pc \<Rightarrow> RemoteJob \<Rightarrow> JobScraper \<Rightarrow> JobScraper \<Rightarrow> bool" where
  "inside l job base js =
     (case l of
        AtLock \<Rightarrow> False
      | AtTest \<Rightarrow> js = base
      | AtAppend \<Rightarrow> js = base \<and> \<not> isSeen base (jobID_of job)
      | AtMark \<Rightarrow> \<not> isSeen base (jobID_of job)
          \<and> js = base\<lparr> jobs := jobs base @ [job\<lparr>ID := jobID_of job\<rparr>] \<rparr>
      | AtLog \<Rightarrow> \<not> isSeen base (jobID_of job)
          \<and> js = base\<lparr> jobs := jobs base @ [job\<lparr>ID := jobID_of job\<rparr>],
                       seenJobs := (seenJobs base)(jobID_of job \<mapsto> True) \<rparr>
      | AtUnlock \<Rightarrow> js = addJob base job
      | Returned \<Rightarrow> False)"

text \<open>
  The invariant of the interleavings: the scraper is the one that the calls which have
  returned leave when made one after the other in the order \<open>order\<close>, up to the
  unfinished work of the one caller that holds the mutex. \<open>returned\<close> lists the
  records of the callers that have returned, \<open>progress\<close> counts the statements done.
\<close>

definition outside :: "pc \<Rightarrow> bool" where
  "outside l = (l = AtLock \<or> l = Returned)"

definition returned :: "system \<Rightarrow> RemoteJob list" where
  "returned s = map snd (filter (\<lambda>c. fst c = Returned) (callers s))"

definition linearised :: "JobScraper \<Rightarrow> system \<Rightarrow> RemoteJob list \<Rightarrow> bool" where
  "linearised js0 s order =
     (mset order = mset (returned s) \<and>
      (if jobsMutex s
       then \<exists>i<length (callers s).
              inside (fst (callers s ! i)) (snd (callers s ! i)) (foldl addJob js0 order) (scraper s)
              \<and> (\<forall>j<length (callers s). j \<noteq> i \<longrightarrow> outside (fst (callers s ! j)))
       else scraper s = foldl addJob js0 order
              \<and> (\<forall>j<length (callers s). outside (fst (callers s ! j)))))"

definition rank :: "pc \<Rightarrow> nat" where
  "rank l = (case l of AtLock \<Rightarrow> 0 | AtTest \<Rightarrow> 1 | AtAppend \<Rightarrow> 2 | AtMark \<Rightarrow> 3
     | AtLog \<Rightarrow> 4 | AtUnlock \<Rightarrow> 5 | Returned \<Rightarrow> 6)"

definition progress :: "system \<Rightarrow> nat" where
  "progress s = sum_list (map (\<lambda>c. rank (fst c)) (callers s))"

section \<open>The second scraper of 4jobswithnotification.go\<close>

text \<open>
  Its \<open>generateJobID\<close> is the one above, and its \<open>JobScraper\<close> has the fields above and
  a counter of the records admitted, which its \<open>addJob\<close> increments. The counter is a
  Go \<open>int\<close> of 64 bits: \<open>incr\<close> is \<open>++\<close>, which wraps from the largest value to the
  smallest.
\<close>

record NotifyingScraper = JobScraper +
  newJobsCount :: int

definition incr :: "int \<Rightarrow> int" where
  "incr n = (n + 1 + 2 ^ 63) mod 2 ^ 64 - 2 ^ 63"

definition addJob_notifying :: "NotifyingScraper \<Rightarrow> RemoteJob \<Rightarrow> NotifyingScraper" where
  "addJob_notifying js job =
     (let jobID = generateJobID (Title job) (Company job) in
      if \<not> isSeen js jobID
      then js\<lparr> jobs := jobs js @ [job\<lparr>ID := jobID\<rparr>],
                seenJobs := (seenJobs js)(jobID \<mapsto> True),
                newJobsCount := incr (newJobsCount js),
                logged := logged js @ [(Title job, Company job, Platform job)] \<rparr>
      else js)"

section \<open>The scraper of 6fresher_remote_scraper.go\<close>

text \<open>
  Isabelle keeps the fields of all records in one name space: the fields of
  \<open>FresherJob\<close> carry the prefix \<open>fj_\<close>, those of \<open>FresherJobScraper\<close> the prefix
  \<open>fjs_\<close>. \<open>fjs_logged\<close> collects the arguments (title, company) of the \<open>log.Printf\<close>
  calls of the callbacks.
\<close>

record FresherJob =
  fj_Platform :: string
  fj_Title :: string
  fj_Company :: string
  fj_Location :: string
  fj_Description :: string
  fj_Salary :: string
  fj_PostedDate :: string
  fj_IsRemote :: bool
  fj_IsFresher :: bool
  fj_URL :: string
  fj_ApplyURL :: string

record FresherJobScraper =
  fjs_jobs :: "FresherJob list"
  fjs_fresherKeywords :: "string list"
  fjs_remoteKeywords :: "string list"
  fjs_excludeKeywords :: "string list"
  fjs_logged :: "(string \<times> string) list"

definition NewFresherJobScraper :: FresherJobScraper where
  "NewFresherJobScraper = \<lparr>
     fjs_jobs = [],
     fjs_fresherKeywords =
       [''entry level'', ''junior'', ''fresher'', ''graduate'', ''trainee'', ''intern'',
        ''no experience'', ''0-1 years'', ''0-2 years'', ''recent graduate'',
        ''entry-level'', ''beginner'', ''associate'', ''new grad'', ''starting''],
     fjs_remoteKeywords =
       [''remote'', ''work from home'', ''telecommute'', ''distributed'',
        ''home office'', ''anywhere'', ''location independent'', ''wfh''],
     fjs_excludeKeywords =
       [''senior'', ''lead'', ''principal'', ''architect'', ''manager'', ''director'',
        ''5+ years'', ''10+ years'', ''experienced'', ''expert'', ''specialist''],
     fjs_logged = [] \<rparr>"

text \<open>
  The three patterns of this file's \<open>isFresherJob\<close>:
  \<^verbatim>\<open>0[\s-]?[12]?\s*years?\<close>, \<^verbatim>\<open>entry[\s-]?level\<close>, \<^verbatim>\<open>new[\s-]?grad\<close>.
\<close>

definition fjs_patterns :: "item list list" where
  "fjs_patterns =
     [ [One (Lit CHR ''0''), Opt (Class space_or_dash), Opt (Class ''12''), Star (Class space_class)]
         @ lits ''year'' @ [Opt (Lit CHR ''s'')],
       lits ''entry'' @ [Opt (Class space_or_dash)] @ lits ''level'',
       lits ''new'' @ [Opt (Class space_or_dash)] @ lits ''grad'' ]"

definition fjs_isFresherJob :: "FresherJobScraper \<Rightarrow> string \<Rightarrow> string \<Rightarrow> bool" where
  "fjs_isFresherJob fjs title description =
     (let combined = ToLower (title @ '' '' @ description) in
      if list_ex (Contains combined) (fjs_excludeKeywords fjs) then False
      else if list_ex (Contains combined) (fjs_fresherKeywords fjs) then True
      else if list_ex (\<lambda>pattern. MatchString pattern combined) fjs_patterns then True
      else False)"

definition fjs_isRemoteJob :: "FresherJobScraper \<Rightarrow> string \<Rightarrow> string \<Rightarrow> string \<Rightarrow> bool" where
  "fjs_isRemoteJob fjs title location description =
     (let combined = ToLower (title @ '' '' @ location @ '' '' @ description) in
      if list_ex (Contains combined) (fjs_remoteKeywords fjs) then True else False)"

text \<open>
  What the callback of \<open>scrapeIndeed\<close> reads from one element: the trimmed texts of the
  selectors, the \<open>href\<close> attribute of the title link and the URL of the request.
\<close>

record IndeedCard =
  h2_a_span :: string
  h2_span :: string
  companyName :: string
  companyLocation :: string
  job_snippet :: string
  salaryText :: string
  date :: string
  href :: string
  requestURL :: string

definition scrapeIndeed_OnHTML :: "FresherJobScraper \<Rightarrow> IndeedCard \<Rightarrow> FresherJobScraper" where
  "scrapeIndeed_OnHTML fjs e =
     (let title = (if h2_a_span e = [] then h2_span e else h2_a_span e);
          company = companyName e;
          location = companyLocation e;
          description = job_snippet e;
          applyLink = (if href e \<noteq> [] \<and> \<not> prefix ''http'' (href e)
                       then ''https://www.indeed.com'' @ href e else href e)
      in
      if title \<noteq> [] \<and> company \<noteq> [] then
        let isFresher = fjs_isFresherJob fjs title description;
            isRemote = fjs_isRemoteJob fjs title location description
        in
        if isFresher \<and> isRemote
        then fjs\<lparr> fjs_jobs := fjs_jobs fjs @
                 [\<lparr> fj_Platform = ''Indeed'', fj_Title = title, fj_Company = company,
                    fj_Location = location, fj_Description = description,
                    fj_Salary = salaryText e, fj_PostedDate = date e,
                    fj_IsRemote = isRemote, fj_IsFresher = isFresher,
                    fj_URL = requestURL e, fj_ApplyURL = applyLink \<rparr>],
               fjs_logged := fjs_logged fjs @ [(title, company)] \<rparr>
        else fjs
      else fjs)"

section \<open>The scraper of 3multipleplatform.go\<close>

text \<open>
  \<open>Job\<close> and the part of \<open>JobScraper\<close> that the callback of \<open>Scrape\<close> writes; the
  fields carry the prefix \<open>Job_\<close>. The callback is modelled from the point where the
  \<open>Job\<close> literal is built, its texts already passed through \<open>sanitizeText\<close>.
\<close>

record Job =
  Job_Platform :: string
  Job_Title :: string
  Job_Company :: string
  Job_Location :: string
  Job_Description :: string
  Job_Salary :: string
  Job_PostedDate :: string
  Job_URL :: string

definition Scrape_OnHTML :: "Job list \<Rightarrow> Job \<Rightarrow> Job list" where
  "Scrape_OnHTML js_jobs job =
     (if Job_Title job \<noteq> [] \<and> Job_Company job \<noteq> [] then js_jobs @ [job] else js_jobs)"

section \<open>The scraper sketched in NOTIFICATION_SETUP.md\<close>

text \<open>
  The \<open>Job\<close> of this scraper; its fields carry the prefix \<open>nj_\<close>, and \<open>nj_AddedAt\<close>
  holds the time as a text.
\<close>

record NotifiedJob =
  nj_ID :: string
  nj_Platform :: string
  nj_Title :: string
  nj_Company :: string
  nj_Location :: string
  nj_Description :: string
  nj_Salary :: string
  nj_PostedDate :: string
  nj_URL :: string
  nj_Skills :: "string list"
  nj_AddedAt :: string

text \<open>
  \<open>isNewJob\<close> keeps its own map and asks a Redis store. The model takes the pair of
  the scraper's map and the store, \<open>redisErr\<close>, which tells whether the \<open>Exists\<close> call
  fails, and \<open>now\<close>, the value of \<open>time.Now().String()\<close>. It returns the answer with the
  new map and store. \<open>isNewJob_jobID\<close> is the key that \<open>isNewJob\<close> builds with
  \<open>fmt.Sprintf("%s-%s-%s", job.Platform, job.Company, job.Title)\<close>.
\<close>

definition isNewJob_jobID :: "NotifiedJob \<Rightarrow> string" where
  "isNewJob_jobID job = nj_Platform job @ ''-'' @ nj_Company job @ ''-'' @ nj_Title job"

definition isNewJob ::
  "(string \<rightharpoonup> bool) \<times> (string \<rightharpoonup> string) \<Rightarrow> bool \<Rightarrow> string \<Rightarrow> NotifiedJob
     \<Rightarrow> bool \<times> (string \<rightharpoonup> bool) \<times> (string \<rightharpoonup> string)" where
  "isNewJob st redisErr now job =
     (let seen = fst st; redis = snd st; jobID = isNewJob_jobID job in
      if (case seen jobID of None \<Rightarrow> False | Some b \<Rightarrow> b) then (False, st)
      else if redisErr then (True, st)
      else if redis jobID \<noteq> None then (False, st)
      else (True, seen(jobID \<mapsto> True), redis(jobID \<mapsto> now)))"

text \<open>Two records of one listing, found on two platforms.\<close>

definition acme_on_indeed :: NotifiedJob where
  "acme_on_indeed = \<lparr> nj_ID = [], nj_Platform = ''Indeed'', nj_Title = ''Junior Dev'',
     nj_Company = ''Acme'', nj_Location = ''Remote'', nj_Description = ''entry level'',
     nj_Salary = [], nj_PostedDate = [], nj_URL = ''https://www.indeed.com/jobs?q=dev'',
     nj_Skills = [], nj_AddedAt = ''2024-01-02 10:00:00'' \<rparr>"

definition acme_on_linkedin :: NotifiedJob where
  "acme_on_linkedin = acme_on_indeed\<lparr> nj_Platform := ''LinkedIn'' \<rparr>"

text \<open>More records and elements used as examples.\<close>

definition card_without_company :: IndeedCard where
  "card_without_company = \<lparr> h2_a_span = [], h2_span = ''Junior Developer'', companyName = [],
     companyLocation = ''Remote'', job_snippet = ''entry level'', salaryText = [], date = [],
     href = ''/rc/clk?jk=1'', requestURL = ''https://www.indeed.com/jobs?q=dev'' \<rparr>"

definition card_junior_developer :: IndeedCard where
  "card_junior_developer = card_without_company\<lparr> companyName := ''Acme'' \<rparr>"

definition job_without_title :: Job where
  "job_without_title = \<lparr> Job_Platform = ''Indeed'', Job_Title = [], Job_Company = ''Acme'',
     Job_Location = [], Job_Description = [], Job_Salary = [], Job_PostedDate = [],
     Job_URL = ''https://www.indeed.com'' \<rparr>"

definition example_listings :: "listing list" where
  "example_listings =
     [RemoteOK ''2024-01-02'' ''Junior Dev'' ''Acme'' ''golang'',
      JustRemote ''2024-01-02'' [] ''Acme'',
      RemoteCo ''2024-01-02'' ''Trainee'' [],
      RemoteCo ''2024-01-02'' ''Senior Dev'' ''Globex'']"

definition acme_on_indeed_again :: NotifiedJob where
  "acme_on_indeed_again = acme_on_indeed\<lparr> nj_Location := ''Berlin'', nj_Description := [],
     nj_Salary := ''$45,000'', nj_PostedDate := ''2024-01-02'',
     nj_URL := ''https://www.indeed.com/jobs?q=junior'' \<rparr>"

section \<open>Facts about the string functions\<close>

lemma Contains_sublist: "Contains s substr \<longleftrightarrow> sublist substr s"
  by (induction s) (auto simp: sublist_Cons_right)

section \<open>The classifier\<close>

text \<open>
  C1. Whenever some phrase of \<open>excludeKeywords\<close> occurs in the lowercased text
  \<open>title + " " + description\<close>, \<open>isFresherJob\<close> returns false, whatever fresher
  keyword or experience pattern the text holds as well.
\<close>

theorem isFresherJob_exclusion_wins:
  assumes "k \<in> set (excludeKeywords js)"
    and "Contains (ToLower (title @ '' '' @ description)) k"
  shows "isFresherJob js title description = False"
  using assms by (auto simp: isFresherJob_def Let_def list_ex_iff)

theorem isFresherJob_exclusion_wins_witness:
  "''senior'' \<in> set (excludeKeywords NewJobScraper)
   \<and> Contains (ToLower (''Senior Junior Developer'' @ '' '' @ ''entry level'')) ''senior''
   \<and> Contains (ToLower (''Senior Junior Developer'' @ '' '' @ ''entry level'')) ''junior''
   \<and> isFresherJob NewJobScraper ''Senior Junior Developer'' ''entry level'' = False"
proof -
  have k: "''senior'' \<in> set (excludeKeywords NewJobScraper)"
    by (simp add: NewJobScraper_def)
  have c: "Contains (ToLower (''Senior Junior Developer'' @ '' '' @ ''entry level'')) ''senior''"
    by code_simp
  have f: "Contains (ToLower (''Senior Junior Developer'' @ '' '' @ ''entry level'')) ''junior''"
    by code_simp
  show ?thesis
    using k c f isFresherJob_exclusion_wins [OF k c] by simp
qed

lemma Contains_append: "Contains s w \<longleftrightarrow> (\<exists>pre post. s = pre @ w @ post)"
  by (simp add: Contains_sublist sublist_def)

lemma MatchString_suffix: "matchHere p t \<Longrightarrow> MatchString p (pre @ t)"
  by (induction pre) (cases t; auto)+

lemma MatchString_Contains:
  assumes "Contains s w" and "\<And>post. matchHere p (w @ post)"
  shows "MatchString p s"
proof -
  from assms(1) obtain pre post where "s = pre @ w @ post"
    by (auto simp: Contains_append)
  with assms(2) show ?thesis
    by (simp add: MatchString_suffix)
qed

lemma match_0_2_years: "matchHere (patterns ! 0) (''0-2 years'' @ post)"
  by (simp add: patterns_def lits_def space_or_dash_def space_class_def)

lemma match_entry_level: "matchHere (patterns ! 1) (''entry level'' @ post)"
  by (simp add: patterns_def lits_def space_or_dash_def space_class_def)

lemma match_new_grad: "matchHere (patterns ! 2) (''new grad'' @ post)"
  by (simp add: patterns_def lits_def space_or_dash_def space_class_def)

lemma match_no_experience: "matchHere (patterns ! 3) (''no experience'' @ post)"
  by (simp add: patterns_def lits_def space_or_dash_def space_class_def)

lemma length_patterns: "length patterns = 5"
  by (simp add: patterns_def)

lemma patterns_nth: "i < 5 \<Longrightarrow> patterns ! i \<in> set patterns"
  by (simp add: length_patterns)

lemma phrase_matches:
  assumes "Contains s ''0-2 years'' \<or> Contains s ''entry level'' \<or> Contains s ''new grad''
     \<or> Contains s ''no experience''"
  shows "list_ex (\<lambda>p. MatchString p s) patterns"
proof -
  from assms consider "Contains s ''0-2 years''" | "Contains s ''entry level''"
    | "Contains s ''new grad''" | "Contains s ''no experience''"
    by blast
  then have "\<exists>i<5. MatchString (patterns ! i) s"
  proof cases
    case 1
    then have "MatchString (patterns ! 0) s"
      by (rule MatchString_Contains) (rule match_0_2_years)
    then show ?thesis by (intro exI[of _ 0]) simp
  next
    case 2
    then have "MatchString (patterns ! 1) s"
      by (rule MatchString_Contains) (rule match_entry_level)
    then show ?thesis by (intro exI[of _ 1]) simp
  next
    case 3
    then have "MatchString (patterns ! 2) s"
      by (rule MatchString_Contains) (rule match_new_grad)
    then show ?thesis by (intro exI[of _ 2]) simp
  next
    case 4
    then have "MatchString (patterns ! 3) s"
      by (rule MatchString_Contains) (rule match_no_experience)
    then show ?thesis by (intro exI[of _ 3]) simp
  qed
  then show ?thesis
    using patterns_nth by (auto simp: list_ex_iff)
qed

lemma fjs_match_0_2_years: "matchHere (fjs_patterns ! 0) (''0-2 years'' @ post)"
  by (simp add: fjs_patterns_def lits_def space_or_dash_def space_class_def)

lemma fjs_match_entry_level: "matchHere (fjs_patterns ! 1) (''entry level'' @ post)"
  by (simp add: fjs_patterns_def lits_def space_or_dash_def space_class_def)

lemma fjs_match_new_grad: "matchHere (fjs_patterns ! 2) (''new grad'' @ post)"
  by (simp add: fjs_patterns_def lits_def space_or_dash_def space_class_def)

lemma length_fjs_patterns: "length fjs_patterns = 3"
  by (simp add: fjs_patterns_def)

lemma fjs_phrase_matches:
  assumes "Contains s ''0-2 years'' \<or> Contains s ''entry level'' \<or> Contains s ''new grad''"
  shows "list_ex (\<lambda>p. MatchString p s) fjs_patterns"
proof -
  from assms consider "Contains s ''0-2 years''" | "Contains s ''entry level''"
    | "Contains s ''new grad''"
    by blast
  then have "\<exists>i<3. MatchString (fjs_patterns ! i) s"
  proof cases
    case 1
    then have "MatchString (fjs_patterns ! 0) s"
      by (rule MatchString_Contains) (rule fjs_match_0_2_years)
    then show ?thesis by (intro exI[of _ 0]) simp
  next
    case 2
    then have "MatchString (fjs_patterns ! 1) s"
      by (rule MatchString_Contains) (rule fjs_match_entry_level)
    then show ?thesis by (intro exI[of _ 1]) simp
  next
    case 3
    then have "MatchString (fjs_patterns ! 2) s"
      by (rule MatchString_Contains) (rule fjs_match_new_grad)
    then show ?thesis by (intro exI[of _ 2]) simp
  qed
  then obtain i where "i < length fjs_patterns" and "MatchString (fjs_patterns ! i) s"
    by (auto simp: length_fjs_patterns)
  then have "\<exists>p\<in>set fjs_patterns. MatchString p s"
    using nth_mem by blast
  then show ?thesis
    by (simp add: list_ex_iff)
qed

lemma fjs_keyword_accepts:
  assumes "\<not> list_ex (Contains (ToLower (title @ '' '' @ description))) (fjs_excludeKeywords fjs)"
    and "k \<in> set (fjs_fresherKeywords fjs)"
    and "Contains (ToLower (title @ '' '' @ description)) k"
  shows "fjs_isFresherJob fjs title description"
  using assms by (auto simp: fjs_isFresherJob_def Let_def list_ex_iff)

text \<open>
  C6, as the code has it. When the lowercased text holds no exclude keyword and no
  fresher keyword, the classifier returns true exactly when one of its patterns matches
  the text: \<open>isFresherJob\<close> of 7advanced_remote_scraper.go with its five patterns,
  \<open>isFresherJob\<close> of 6fresher_remote_scraper.go with its three. When no exclude keyword
  occurs, a text that holds "0-2 years", "entry level" or "new grad" is accepted by both,
  and a text that holds "no experience" is accepted by the first, and by the second with
  the keyword lists of \<open>NewFresherJobScraper\<close>.
\<close>

theorem isFresherJob_pattern_step:
  assumes "combined = ToLower (title @ '' '' @ description)"
  shows "(\<not> list_ex (Contains combined) (excludeKeywords js)
          \<and> \<not> list_ex (Contains combined) (fresherKeywords js)
        \<longrightarrow> isFresherJob js title description
              = list_ex (\<lambda>pattern. MatchString pattern combined) patterns)
    \<and> (\<not> list_ex (Contains combined) (excludeKeywords js)
          \<and> (Contains combined ''0-2 years'' \<or> Contains combined ''entry level''
               \<or> Contains combined ''new grad'' \<or> Contains combined ''no experience'')
        \<longrightarrow> isFresherJob js title description)
    \<and> (\<not> list_ex (Contains combined) (fjs_excludeKeywords fjs)
          \<and> \<not> list_ex (Contains combined) (fjs_fresherKeywords fjs)
        \<longrightarrow> fjs_isFresherJob fjs title description
              = list_ex (\<lambda>pattern. MatchString pattern combined) fjs_patterns)
    \<and> (\<not> list_ex (Contains combined) (fjs_excludeKeywords fjs)
          \<and> (Contains combined ''0-2 years'' \<or> Contains combined ''entry level''
               \<or> Contains combined ''new grad'')
        \<longrightarrow> fjs_isFresherJob fjs title description)
    \<and> (\<not> list_ex (Contains combined) (fjs_excludeKeywords NewFresherJobScraper)
          \<and> Contains combined ''no experience''
        \<longrightarrow> fjs_isFresherJob NewFresherJobScraper title description)"
proof (intro conjI impI)
  assume "\<not> list_ex (Contains combined) (excludeKeywords js)
      \<and> \<not> list_ex (Contains combined) (fresherKeywords js)"
  with assms show "isFresherJob js title description
      = list_ex (\<lambda>pattern. MatchString pattern combined) patterns"
    by (simp add: isFresherJob_def Let_def)
next
  assume "\<not> list_ex (Contains combined) (excludeKeywords js)
      \<and> (Contains combined ''0-2 years'' \<or> Contains combined ''entry level''
           \<or> Contains combined ''new grad'' \<or> Contains combined ''no experience'')"
  with assms phrase_matches [of combined] show "isFresherJob js title description"
    by (auto simp: isFresherJob_def Let_def)
next
  assume "\<not> list_ex (Contains combined) (fjs_excludeKeywords fjs)
      \<and> \<not> list_ex (Contains combined) (fjs_fresherKeywords fjs)"
  with assms show "fjs_isFresherJob fjs title description
      = list_ex (\<lambda>pattern. MatchString pattern combined) fjs_patterns"
    by (simp add: fjs_isFresherJob_def Let_def)
next
  assume "\<not> list_ex (Contains combined) (fjs_excludeKeywords fjs)
      \<and> (Contains combined ''0-2 years'' \<or> Contains combined ''entry level''
           \<or> Contains combined ''new grad'')"
  with assms fjs_phrase_matches [of combined] show "fjs_isFresherJob fjs title description"
    by (auto simp: fjs_isFresherJob_def Let_def)
next
  assume a: "\<not> list_ex (Contains combined) (fjs_excludeKeywords NewFresherJobScraper)
      \<and> Contains combined ''no experience''"
  have "''no experience'' \<in> set (fjs_fresherKeywords NewFresherJobScraper)"
    by (simp add: NewFresherJobScraper_def)
  with a assms show "fjs_isFresherJob NewFresherJobScraper title description"
    by (auto intro: fjs_keyword_accepts)
qed

theorem isFresherJob_pattern_step_witness:
  "\<not> list_ex (Contains ''developer noexperience needed'') (excludeKeywords NewJobScraper)
   \<and> \<not> list_ex (Contains ''developer noexperience needed'') (fresherKeywords NewJobScraper)
   \<and> list_ex (\<lambda>pattern. MatchString pattern ''developer noexperience needed'') patterns
   \<and> isFresherJob NewJobScraper ''Developer'' ''NoExperience needed''
   \<and> \<not> list_ex (Contains ''analyst new grad welcome'') (excludeKeywords NewJobScraper)
   \<and> Contains ''analyst new grad welcome'' ''new grad''
   \<and> isFresherJob NewJobScraper ''Analyst'' ''New grad welcome''
   \<and> \<not> list_ex (Contains ''developer newgrad wanted'') (fjs_excludeKeywords NewFresherJobScraper)
   \<and> \<not> list_ex (Contains ''developer newgrad wanted'') (fjs_fresherKeywords NewFresherJobScraper)
   \<and> list_ex (\<lambda>pattern. MatchString pattern ''developer newgrad wanted'') fjs_patterns
   \<and> fjs_isFresherJob NewFresherJobScraper ''Developer'' ''NewGrad wanted''
   \<and> \<not> list_ex (Contains ''analyst new grad welcome'') (fjs_excludeKeywords NewFresherJobScraper)
   \<and> fjs_isFresherJob NewFresherJobScraper ''Analyst'' ''New grad welcome''
   \<and> \<not> list_ex (Contains ''developer no experience needed'')
        (fjs_excludeKeywords NewFresherJobScraper)
   \<and> Contains ''developer no experience needed'' ''no experience''
   \<and> fjs_isFresherJob NewFresherJobScraper ''Developer'' ''No experience needed''"
proof -
  have c: "''developer noexperience needed'' = ToLower (''Developer'' @ '' '' @ ''NoExperience needed'')"
    by code_simp
  have e: "\<not> list_ex (Contains ''developer noexperience needed'') (excludeKeywords NewJobScraper)"
    by code_simp
  have f: "\<not> list_ex (Contains ''developer noexperience needed'') (fresherKeywords NewJobScraper)"
    by code_simp
  have m: "list_ex (\<lambda>pattern. MatchString pattern ''developer noexperience needed'') patterns"
    by code_simp
  from isFresherJob_pattern_step [OF c, of NewJobScraper] e f m
  have r: "isFresherJob NewJobScraper ''Developer'' ''NoExperience needed''"
    by blast
  have c': "''analyst new grad welcome'' = ToLower (''Analyst'' @ '' '' @ ''New grad welcome'')"
    by code_simp
  have e': "\<not> list_ex (Contains ''analyst new grad welcome'') (excludeKeywords NewJobScraper)"
    by code_simp
  have g': "Contains ''analyst new grad welcome'' ''new grad''"
    by code_simp
  from isFresherJob_pattern_step [OF c', of NewJobScraper] e' g'
  have r': "isFresherJob NewJobScraper ''Analyst'' ''New grad welcome''"
    by blast
  have c6: "''developer newgrad wanted'' = ToLower (''Developer'' @ '' '' @ ''NewGrad wanted'')"
    by code_simp
  have e6: "\<not> list_ex (Contains ''developer newgrad wanted'') (fjs_excludeKeywords NewFresherJobScraper)"
    by code_simp
  have f6: "\<not> list_ex (Contains ''developer newgrad wanted'') (fjs_fresherKeywords NewFresherJobScraper)"
    by code_simp
  have m6: "list_ex (\<lambda>pattern. MatchString pattern ''developer newgrad wanted'') fjs_patterns"
    by code_simp
  from isFresherJob_pattern_step [OF c6, of _ NewFresherJobScraper] e6 f6 m6
  have r6: "fjs_isFresherJob NewFresherJobScraper ''Developer'' ''NewGrad wanted''"
    by blast
  have e6': "\<not> list_ex (Contains ''analyst new grad welcome'') (fjs_excludeKeywords NewFresherJobScraper)"
    by code_simp
  from isFresherJob_pattern_step [OF c', of _ NewFresherJobScraper] e6' g'
  have r6': "fjs_isFresherJob NewFresherJobScraper ''Analyst'' ''New grad welcome''"
    by blast
  have c7: "''developer no experience needed''
      = ToLower (''Developer'' @ '' '' @ ''No experience needed'')"
    by code_simp
  have e7: "\<not> list_ex (Contains ''developer no experience needed'')
      (fjs_excludeKeywords NewFresherJobScraper)"
    by code_simp
  have g7: "Contains ''developer no experience needed'' ''no experience''"
    by code_simp
  from isFresherJob_pattern_step [OF c7] e7 g7
  have r7: "fjs_isFresherJob NewFresherJobScraper ''Developer'' ''No experience needed''"
    by blast
  from e f m r e' g' r' e6 f6 m6 r6 e6' r6' e7 g7 r7 show ?thesis
    by (intro conjI)
qed

text \<open>
  C6, as stated, fails for the phrase "0 to 2 years": the text "developer 0 to 2 years"
  holds no exclude keyword and no fresher keyword, none of the patterns matches it
  (the first one wants "year" right after the digits and the white space that follow
  the "0"), and the record is rejected, by the classifiers of both files.
\<close>

theorem isFresherJob_0_to_2_years_rejected:
  "\<not> list_ex (Contains (ToLower (''Developer'' @ '' '' @ ''0 to 2 years'')))
        (excludeKeywords NewJobScraper)
   \<and> \<not> list_ex (Contains (ToLower (''Developer'' @ '' '' @ ''0 to 2 years'')))
        (fresherKeywords NewJobScraper)
   \<and> Contains (ToLower (''Developer'' @ '' '' @ ''0 to 2 years'')) ''0 to 2 years''
   \<and> \<not> list_ex (\<lambda>pattern. MatchString pattern (ToLower (''Developer'' @ '' '' @ ''0 to 2 years''))) patterns
   \<and> isFresherJob NewJobScraper ''Developer'' ''0 to 2 years'' = False
   \<and> \<not> list_ex (Contains (ToLower (''Developer'' @ '' '' @ ''0 to 2 years'')))
        (fjs_excludeKeywords NewFresherJobScraper)
   \<and> \<not> list_ex (Contains (ToLower (''Developer'' @ '' '' @ ''0 to 2 years'')))
        (fjs_fresherKeywords NewFresherJobScraper)
   \<and> fjs_isFresherJob NewFresherJobScraper ''Developer'' ''0 to 2 years'' = False"
  by code_simp

text \<open>
  C8. \<open>isRemoteJob\<close> returns true exactly when some phrase of \<open>remoteKeywords\<close> occurs
  in the lowercased text \<open>title + " " + location + " " + description\<close>. The exclude
  keywords and the fresher keywords have no influence on it.
\<close>

theorem isRemoteJob_iff:
  "isRemoteJob js title location description
     = (\<exists>k\<in>set (remoteKeywords js).
          Contains (ToLower (title @ '' '' @ location @ '' '' @ description)) k)
   \<and> isRemoteJob (js\<lparr>excludeKeywords := ex, fresherKeywords := fr\<rparr>) title location description
     = isRemoteJob js title location description"
  by (simp add: isRemoteJob_def Let_def list_ex_iff)

theorem isRemoteJob_iff_witness:
  "''remote'' \<in> set (remoteKeywords NewJobScraper)
   \<and> Contains (ToLower (''Senior Engineer'' @ '' '' @ ''Remote'' @ '' '' @ '''')) ''remote''
   \<and> isRemoteJob NewJobScraper ''Senior Engineer'' ''Remote'' ''''
   \<and> \<not> isFresherJob NewJobScraper ''Senior Engineer'' ''''
   \<and> \<not> isRemoteJob NewJobScraper ''Junior Engineer'' ''Berlin'' ''on site''"
proof -
  have k: "''remote'' \<in> set (remoteKeywords NewJobScraper)"
    by (simp add: NewJobScraper_def)
  have c: "Contains (ToLower (''Senior Engineer'' @ '' '' @ ''Remote'' @ '' '' @ '''')) ''remote''"
    by code_simp
  from isRemoteJob_iff [of NewJobScraper "''Senior Engineer''" "''Remote''" "''''"] k c
  have r: "isRemoteJob NewJobScraper ''Senior Engineer'' ''Remote'' ''''"
    by blast
  have f: "\<not> isFresherJob NewJobScraper ''Senior Engineer'' ''''"
    by code_simp
  have n: "\<not> isRemoteJob NewJobScraper ''Junior Engineer'' ''Berlin'' ''on site''"
    by code_simp
  from k c r f n show ?thesis
    by (intro conjI)
qed

text \<open>
  The classifier of 6fresher_remote_scraper.go has the same three steps, with its own
  keyword lists and three patterns: it has no pattern for "no experience".
\<close>

lemma fjs_exclusion_wins:
  assumes "k \<in> set (fjs_excludeKeywords fjs)"
    and "Contains (ToLower (title @ '' '' @ description)) k"
  shows "fjs_isFresherJob fjs title description = False"
  using assms by (auto simp: fjs_isFresherJob_def Let_def list_ex_iff)

lemma fjs_pattern_step:
  assumes "combined = ToLower (title @ '' '' @ description)"
    and "\<not> list_ex (Contains combined) (fjs_excludeKeywords fjs)"
    and "\<not> list_ex (Contains combined) (fjs_fresherKeywords fjs)"
  shows "fjs_isFresherJob fjs title description
     = list_ex (\<lambda>pattern. MatchString pattern combined) fjs_patterns"
  using assms by (simp add: fjs_isFresherJob_def Let_def)

lemma fjs_isRemoteJob_iff:
  "fjs_isRemoteJob fjs title location description
     = (\<exists>k\<in>set (fjs_remoteKeywords fjs).
          Contains (ToLower (title @ '' '' @ location @ '' '' @ description)) k)"
  by (simp add: fjs_isRemoteJob_def Let_def list_ex_iff)

lemma fjs_examples:
  "fjs_isFresherJob NewFresherJobScraper ''Developer'' ''0 to 2 years'' = False"
  "fjs_isFresherJob NewFresherJobScraper ''Senior Junior Developer'' ''entry level'' = False"
  "fjs_isFresherJob NewFresherJobScraper ''Developer'' ''noexperience needed'' = False"
  "fjs_isFresherJob NewFresherJobScraper ''Developer'' ''no experience needed'' = True"
  by code_simp+

section \<open>Record identity\<close>


text \<open>
  C10. \<open>generateJobID\<close> is not injective. Company "Acme" with title "Junior Dev" and
  company "Acme Junior" with title "Dev" are different listings with the same ID, and so
  are the titles "Junior_Dev" and "Junior Dev" of one company. After the first listing
  the second is dropped by \<open>addJob\<close>: no record, no map entry and no log line is added.
\<close>

theorem generateJobID_not_injective:
  "(Title acme_junior_dev, Company acme_junior_dev) \<noteq> (Title acme_junior__dev, Company acme_junior__dev)
   \<and> generateJobID ''Junior Dev'' ''Acme'' = ''acme_junior_dev''
   \<and> generateJobID ''Dev'' ''Acme Junior'' = ''acme_junior_dev''
   \<and> generateJobID ''Junior_Dev'' ''Acme'' = generateJobID ''Junior Dev'' ''Acme''
   \<and> addJob (addJob js acme_junior_dev) acme_junior__dev = addJob js acme_junior_dev"
proof -
  have a: "jobID_of acme_junior_dev = ''acme_junior_dev''" by code_simp
  have b: "jobID_of acme_junior__dev = ''acme_junior_dev''" by code_simp
  have "isSeen (addJob js acme_junior_dev) (jobID_of acme_junior_dev)"
    by (simp add: addJob_def isSeen_def Let_def)
  then have "isSeen (addJob js acme_junior_dev) (jobID_of acme_junior__dev)"
    by (simp only: a b)
  then have "addJob (addJob js acme_junior_dev) acme_junior__dev = addJob js acme_junior_dev"
    by (simp add: addJob_def)
  moreover have "(Title acme_junior_dev, Company acme_junior_dev)
      \<noteq> (Title acme_junior__dev, Company acme_junior__dev)"
    by (simp add: acme_junior_dev_def acme_junior__dev_def RemoteJob_zero_def)
  moreover have "generateJobID ''Junior Dev'' ''Acme'' = ''acme_junior_dev''" by code_simp
  moreover have "generateJobID ''Dev'' ''Acme Junior'' = ''acme_junior_dev''" by code_simp
  moreover have "generateJobID ''Junior_Dev'' ''Acme'' = generateJobID ''Junior Dev'' ''Acme''"
    by code_simp
  ultimately show ?thesis by simp
qed

section \<open>Deduplication\<close>

lemma run_Nil: "run [] = NewJobScraper"
  by (simp add: run_def)

lemma run_snoc: "run (history @ [job]) = addJob (run history) job"
  by (simp add: run_def)

lemma jobs_addJob:
  "jobs (addJob js job) =
     (if isSeen js (jobID_of job) then jobs js else jobs js @ [job\<lparr>ID := jobID_of job\<rparr>])"
  by (simp add: addJob_def Let_def)

lemma seenJobs_addJob:
  "seenJobs (addJob js job) =
     (if isSeen js (jobID_of job) then seenJobs js else (seenJobs js)(jobID_of job \<mapsto> True))"
  by (simp add: addJob_def Let_def)

lemma isSeen_addJob: "isSeen (addJob js job) k \<longleftrightarrow> isSeen js k \<or> k = jobID_of job"
  by (auto simp: isSeen_def seenJobs_addJob)

lemma addJob_seen: "isSeen js (jobID_of job) \<Longrightarrow> addJob js job = js"
  by (simp add: addJob_def)

lemma isSeen_NewJobScraper: "isSeen NewJobScraper k = False"
  by (simp add: isSeen_def NewJobScraper_def)

lemma find_snoc:
  "find P (xs @ [x]) =
     (case find P xs of None \<Rightarrow> (if P x then Some x else None) | Some y \<Rightarrow> Some y)"
  by (induction xs) auto

lemma run_seen_values: "seenJobs (run history) k = Some b \<Longrightarrow> b"
  by (induction history arbitrary: k b rule: rev_induct)
     (auto simp: run_Nil run_snoc NewJobScraper_def seenJobs_addJob split: if_splits)

lemma run_dom_seen: "dom (seenJobs (run history)) = {k. isSeen (run history) k}"
  using run_seen_values[of history] by (auto simp: isSeen_def split: option.splits)

lemma run_seen_history: "isSeen (run history) k \<longleftrightarrow> k \<in> jobID_of ` set history"
  by (induction history rule: rev_induct)
     (auto simp: run_Nil run_snoc isSeen_addJob isSeen_NewJobScraper)

lemma run_ids: "ID ` set (jobs (run history)) = jobID_of ` set history"
  by (induction history rule: rev_induct)
     (auto simp: run_Nil run_snoc NewJobScraper_def jobs_addJob run_seen_history)

lemma run_distinct: "distinct (map ID (jobs (run history)))"
proof (induction history rule: rev_induct)
  case Nil
  show ?case by (simp add: run_Nil NewJobScraper_def)
next
  case (snoc job history)
  show ?case
  proof (cases "isSeen (run history) (jobID_of job)")
    case True
    with snoc show ?thesis by (simp add: run_snoc jobs_addJob)
  next
    case False
    then have "jobID_of job \<notin> ID ` set (jobs (run history))"
      by (simp add: run_ids run_seen_history)
    with snoc False show ?thesis by (simp add: run_snoc jobs_addJob)
  qed
qed

lemma run_first:
  "r \<in> set (jobs (run history)) \<Longrightarrow>
     \<exists>job. find (\<lambda>j. jobID_of j = ID r) history = Some job \<and> r = job\<lparr>ID := jobID_of job\<rparr>"
proof (induction history arbitrary: r rule: rev_induct)
  case Nil
  then show ?case by (simp add: run_Nil NewJobScraper_def)
next
  case (snoc job history)
  show ?case
  proof (cases "r \<in> set (jobs (run history))")
    case True
    from snoc.IH[OF True] show ?thesis by (auto simp: find_snoc)
  next
    case False
    with snoc.prems have new: "\<not> isSeen (run history) (jobID_of job)"
      and r: "r = job\<lparr>ID := jobID_of job\<rparr>"
      by (auto simp: run_snoc jobs_addJob split: if_splits)
    from new have "find (\<lambda>j. jobID_of j = jobID_of job) history = None"
      by (force simp: run_seen_history find_None_iff image_iff)
    with r show ?thesis by (simp add: find_snoc)
  qed
qed

lemma count_one:
  "distinct (map f xs) \<Longrightarrow> k \<in> f ` set xs \<Longrightarrow> length (filter (\<lambda>x. f x = k) xs) = 1"
  by (induction xs) (auto simp: filter_empty_conv image_iff)

text \<open>
  C4. \<open>addJob\<close> is idempotent. A second call with the same title and company leaves the
  scraper as the first call left it: the list, the map and the log are unchanged. When
  the identity was new, the two calls append exactly one record, the first one with its
  ID filled in; and in every scraper built by \<open>addJob\<close> calls from \<open>NewJobScraper\<close> the
  list holds, after the two calls, exactly one record of that identity.
\<close>

theorem addJob_idempotent:
  assumes "Title job' = Title job" and "Company job' = Company job"
  shows "addJob (addJob js job) job' = addJob js job
    \<and> (\<not> isSeen js (jobID_of job) \<longrightarrow>
         jobs (addJob (addJob js job) job') = jobs js @ [job\<lparr>ID := jobID_of job\<rparr>])
    \<and> (js = run history \<longrightarrow>
         length (filter (\<lambda>r. ID r = jobID_of job) (jobs (addJob (addJob js job) job'))) = 1)"
proof -
  have "isSeen (addJob js job) (jobID_of job')"
    using assms by (simp add: isSeen_addJob)
  then have twice: "addJob (addJob js job) job' = addJob js job"
    by (rule addJob_seen)
  have fresh: "jobs (addJob js job) = jobs js @ [job\<lparr>ID := jobID_of job\<rparr>]"
    if "\<not> isSeen js (jobID_of job)"
    using that by (simp add: jobs_addJob)
  have once: "length (filter (\<lambda>r. ID r = jobID_of job) (jobs (addJob (run history) job))) = 1"
  proof -
    have "distinct (map ID (jobs (run (history @ [job]))))"
      by (rule run_distinct)
    moreover have "jobID_of job \<in> ID ` set (jobs (run (history @ [job])))"
      by (simp add: run_ids)
    ultimately have "length (filter (\<lambda>r. ID r = jobID_of job) (jobs (run (history @ [job])))) = 1"
      by (rule count_one)
    then show ?thesis
      by (simp only: run_snoc)
  qed
  show ?thesis
    unfolding twice using fresh once by auto
qed

theorem addJob_idempotent_witness:
  "Title acme_junior_dev_again = Title acme_junior_dev
   \<and> Company acme_junior_dev_again = Company acme_junior_dev
   \<and> acme_junior_dev_again \<noteq> acme_junior_dev
   \<and> \<not> isSeen NewJobScraper (jobID_of acme_junior_dev)
   \<and> NewJobScraper = run []
   \<and> addJob (addJob NewJobScraper acme_junior_dev) acme_junior_dev_again
       = addJob NewJobScraper acme_junior_dev
   \<and> jobs (addJob (addJob NewJobScraper acme_junior_dev) acme_junior_dev_again)
       = [acme_junior_dev\<lparr>ID := ''acme_junior_dev''\<rparr>]
   \<and> length (filter (\<lambda>r. ID r = jobID_of acme_junior_dev)
        (jobs (addJob (addJob NewJobScraper acme_junior_dev) acme_junior_dev_again))) = 1"
proof -
  have t: "Title acme_junior_dev_again = Title acme_junior_dev"
    by (simp add: acme_junior_dev_again_def acme_junior_dev_def)
  have c: "Company acme_junior_dev_again = Company acme_junior_dev"
    by (simp add: acme_junior_dev_again_def acme_junior_dev_def)
  have d: "acme_junior_dev_again \<noteq> acme_junior_dev"
    by (simp add: acme_junior_dev_again_def acme_junior_dev_def RemoteJob_zero_def)
  have n: "\<not> isSeen NewJobScraper (jobID_of acme_junior_dev)"
    by (simp add: isSeen_NewJobScraper)
  have r: "NewJobScraper = run []"
    by (simp add: run_Nil)
  have k: "jobID_of acme_junior_dev = ''acme_junior_dev''"
    by code_simp
  have j: "jobs NewJobScraper = []"
    by (simp add: NewJobScraper_def)
  note inst = addJob_idempotent [OF t c, of NewJobScraper "[]"]
  from inst have first: "addJob (addJob NewJobScraper acme_junior_dev) acme_junior_dev_again
       = addJob NewJobScraper acme_junior_dev"
    by (rule conjunct1)
  from inst n have second: "jobs (addJob (addJob NewJobScraper acme_junior_dev) acme_junior_dev_again)
       = jobs NewJobScraper @ [acme_junior_dev\<lparr>ID := jobID_of acme_junior_dev\<rparr>]"
    by blast
  from inst r have third: "length (filter (\<lambda>r. ID r = jobID_of acme_junior_dev)
        (jobs (addJob (addJob NewJobScraper acme_junior_dev) acme_junior_dev_again))) = 1"
    by blast
  from second have second': "jobs (addJob (addJob NewJobScraper acme_junior_dev) acme_junior_dev_again)
       = [acme_junior_dev\<lparr>ID := ''acme_junior_dev''\<rparr>]"
    by (simp only: j k append_Nil)
  from t c d n r first second' third show ?thesis
    by (intro conjI)
qed

text \<open>
  The \<open>addJob\<close> of 4jobswithnotification.go does the same to the fields it shares with
  the one above, counts the records it admits, and is idempotent as well.
\<close>

lemma isSeen_truncate: "isSeen (JobScraper.truncate js) k = isSeen js k"
  by (simp add: isSeen_def JobScraper.truncate_def)

lemma addJob_notifying_refines:
  "JobScraper.truncate (addJob_notifying js job) = addJob (JobScraper.truncate js) job"
  by (simp add: addJob_notifying_def addJob_def Let_def isSeen_truncate)
     (simp add: JobScraper.truncate_def)

lemma addJob_notifying_count:
  "newJobsCount (addJob_notifying js job)
     = (if isSeen js (jobID_of job) then newJobsCount js else incr (newJobsCount js))"
  by (simp add: addJob_notifying_def Let_def)

lemma incr_in_range:
  "- (2 ^ 63) \<le> n \<Longrightarrow> n < 2 ^ 63 - 1 \<Longrightarrow> incr n = n + 1"
  by (simp add: incr_def)

lemma addJob_notifying_twice:
  assumes "Title job' = Title job" and "Company job' = Company job"
  shows "addJob_notifying (addJob_notifying js job) job' = addJob_notifying js job"
proof -
  have "isSeen (addJob_notifying js job) (jobID_of job)"
    by (simp add: addJob_notifying_def isSeen_def Let_def)
  with assms show ?thesis
    by (simp add: addJob_notifying_def [of "addJob_notifying js job"])
qed

text \<open>
  C9. After any sequence of \<open>addJob\<close> calls on a new scraper the IDs of the records in
  \<open>jobs\<close> are pairwise distinct, they are exactly the keys of \<open>seenJobs\<close> (each mapped
  to true), and the record stored under an ID is the first record of the sequence with
  that identity, changed in its \<open>ID\<close> field only.
\<close>

theorem addJob_sequence_invariant:
  "distinct (map ID (jobs (run history)))
   \<and> ID ` set (jobs (run history)) = dom (seenJobs (run history))
   \<and> (\<forall>k\<in>dom (seenJobs (run history)). seenJobs (run history) k = Some True)
   \<and> (\<forall>r\<in>set (jobs (run history)).
         \<exists>job. find (\<lambda>j. jobID_of j = ID r) history = Some job \<and> r = job\<lparr>ID := jobID_of job\<rparr>)"
proof -
  have a: "ID ` set (jobs (run history)) = dom (seenJobs (run history))"
    by (simp add: run_ids run_dom_seen run_seen_history)
  have b: "\<forall>k\<in>dom (seenJobs (run history)). seenJobs (run history) k = Some True"
    using run_seen_values[of history] by auto
  have c: "\<forall>r\<in>set (jobs (run history)).
         \<exists>job. find (\<lambda>j. jobID_of j = ID r) history = Some job \<and> r = job\<lparr>ID := jobID_of job\<rparr>"
    using run_first[of _ history] by blast
  from run_distinct[of history] a b c show ?thesis
    by (intro conjI)
qed

theorem addJob_sequence_invariant_witness:
  "jobs (run [acme_junior_dev, globex_trainee, acme_junior_dev_again, acme_junior__dev])
     = [acme_junior_dev\<lparr>ID := ''acme_junior_dev''\<rparr>, globex_trainee\<lparr>ID := ''globex_trainee''\<rparr>]
   \<and> distinct (map ID (jobs (run [acme_junior_dev, globex_trainee, acme_junior_dev_again, acme_junior__dev])))
   \<and> dom (seenJobs (run [acme_junior_dev, globex_trainee, acme_junior_dev_again, acme_junior__dev]))
       = {''acme_junior_dev'', ''globex_trainee''}
   \<and> seenJobs (run [acme_junior_dev, globex_trainee, acme_junior_dev_again, acme_junior__dev])
        ''acme_junior_dev'' = Some True
   \<and> find (\<lambda>j. jobID_of j = ''acme_junior_dev'')
        [acme_junior_dev, globex_trainee, acme_junior_dev_again, acme_junior__dev] = Some acme_junior_dev"
proof -
  let ?h = "[acme_junior_dev, globex_trainee, acme_junior_dev_again, acme_junior__dev]"
  note inv = addJob_sequence_invariant [of ?h]
  have j: "jobs (run ?h)
     = [acme_junior_dev\<lparr>ID := ''acme_junior_dev''\<rparr>, globex_trainee\<lparr>ID := ''globex_trainee''\<rparr>]"
    by code_simp
  have f: "find (\<lambda>j. jobID_of j = ''acme_junior_dev'') ?h = Some acme_junior_dev"
    by code_simp
  from inv have d: "distinct (map ID (jobs (run ?h)))"
    by (rule conjunct1)
  from inv have i: "ID ` set (jobs (run ?h)) = dom (seenJobs (run ?h))"
    by (elim conjE)
  have e: "ID ` set (jobs (run ?h)) = {''acme_junior_dev'', ''globex_trainee''}"
    unfolding j by simp
  from i [symmetric] e have m: "dom (seenJobs (run ?h)) = {''acme_junior_dev'', ''globex_trainee''}"
    by (rule trans)
  from inv have "\<forall>k\<in>dom (seenJobs (run ?h)). seenJobs (run ?h) k = Some True"
    by (elim conjE)
  moreover from m have "''acme_junior_dev'' \<in> dom (seenJobs (run ?h))"
    by (simp only: insertI1)
  ultimately have s: "seenJobs (run ?h) ''acme_junior_dev'' = Some True"
    by (rule bspec)
  from j d m s f show ?thesis
    by (intro conjI)
qed






lemma isSeen_addJob_self: "isSeen (addJob js job) (jobID_of job)"
  by (simp add: addJob_def isSeen_def Let_def)

lemma isNewJob_jobID_platform:
  assumes "nj_Company p = nj_Company q" and "nj_Title p = nj_Title q"
  shows "isNewJob_jobID p = isNewJob_jobID q \<longleftrightarrow> nj_Platform p = nj_Platform q"
  using assms by (simp add: isNewJob_jobID_def)

lemma isNewJob_first:
  "isNewJob (Map.empty, Map.empty) False now p
     = (True, Map.empty(isNewJob_jobID p \<mapsto> True), Map.empty(isNewJob_jobID p \<mapsto> now))"
  by (simp add: isNewJob_def Let_def)

lemma isNewJob_other_key:
  assumes "isNewJob_jobID q \<noteq> isNewJob_jobID p"
  shows "fst (isNewJob (snd (isNewJob (Map.empty, Map.empty) False now p)) False now' q)"
  using assms by (simp add: isNewJob_first) (simp add: isNewJob_def Let_def)

text \<open>
  C2, as the code has it. In \<open>generateJobID\<close> and \<open>addJob\<close> the identity of a record
  depends on its company and its title only: two records whose normalised companies and
  normalised titles are equal have the same ID, whatever their platform, location,
  description, salary, posting date and URL are, and the second is dropped after the
  first. In \<open>isNewJob\<close> of NOTIFICATION_SETUP.md the key depends on platform, company
  and title only: two records that agree on the three have the same key and get the
  same answer, and two records that agree on company and title and differ in platform
  have different keys, so that after the first the second is new as well.
\<close>

theorem identity_of_company_and_title:
  "(ReplaceAll (ToLower (Company a)) '' '' ''_'' = ReplaceAll (ToLower (Company b)) '' '' ''_''
      \<and> ReplaceAll (ToLower (Title a)) '' '' ''_'' = ReplaceAll (ToLower (Title b)) '' '' ''_''
    \<longrightarrow> jobID_of a = jobID_of b \<and> addJob (addJob js a) b = addJob js a)
   \<and> (nj_Platform p = nj_Platform q \<and> nj_Company p = nj_Company q \<and> nj_Title p = nj_Title q
    \<longrightarrow> isNewJob_jobID p = isNewJob_jobID q
        \<and> isNewJob st redisErr now p = isNewJob st redisErr now q)
   \<and> (nj_Platform u \<noteq> nj_Platform v \<and> nj_Company u = nj_Company v \<and> nj_Title u = nj_Title v
    \<longrightarrow> isNewJob_jobID u \<noteq> isNewJob_jobID v
        \<and> fst (isNewJob (Map.empty, Map.empty) False now u)
        \<and> fst (isNewJob (snd (isNewJob (Map.empty, Map.empty) False now u)) False now' v))"
proof (intro conjI impI)
  assume eq: "ReplaceAll (ToLower (Company a)) '' '' ''_'' = ReplaceAll (ToLower (Company b)) '' '' ''_''
      \<and> ReplaceAll (ToLower (Title a)) '' '' ''_'' = ReplaceAll (ToLower (Title b)) '' '' ''_''"
  then show id: "jobID_of a = jobID_of b"
    by (simp add: generateJobID_def)
  have "isSeen (addJob js a) (jobID_of a)"
    by (rule isSeen_addJob_self)
  then have "isSeen (addJob js a) (jobID_of b)"
    by (simp only: id)
  then show "addJob (addJob js a) b = addJob js a"
    by (simp add: addJob_def)
next
  assume eq: "nj_Platform p = nj_Platform q \<and> nj_Company p = nj_Company q \<and> nj_Title p = nj_Title q"
  then show id: "isNewJob_jobID p = isNewJob_jobID q"
    by (simp add: isNewJob_jobID_def)
  then show "isNewJob st redisErr now p = isNewJob st redisErr now q"
    by (simp add: isNewJob_def)
next
  assume ne: "nj_Platform u \<noteq> nj_Platform v \<and> nj_Company u = nj_Company v \<and> nj_Title u = nj_Title v"
  then show key: "isNewJob_jobID u \<noteq> isNewJob_jobID v"
    by (simp add: isNewJob_jobID_platform)
  show "fst (isNewJob (Map.empty, Map.empty) False now u)"
    by (simp add: isNewJob_first)
  from key have "isNewJob_jobID v \<noteq> isNewJob_jobID u"
    by (rule not_sym)
  then show "fst (isNewJob (snd (isNewJob (Map.empty, Map.empty) False now u)) False now' v)"
    by (rule isNewJob_other_key)
qed

theorem identity_of_company_and_title_witness:
  "ReplaceAll (ToLower (Company acme_junior_dev)) '' '' ''_''
     = ReplaceAll (ToLower (Company acme_junior_dev_again)) '' '' ''_''
   \<and> ReplaceAll (ToLower (Title acme_junior_dev)) '' '' ''_''
     = ReplaceAll (ToLower (Title acme_junior_dev_again)) '' '' ''_''
   \<and> Platform acme_junior_dev \<noteq> Platform acme_junior_dev_again
   \<and> Location acme_junior_dev \<noteq> Location acme_junior_dev_again
   \<and> Description acme_junior_dev \<noteq> Description acme_junior_dev_again
   \<and> Salary acme_junior_dev \<noteq> Salary acme_junior_dev_again
   \<and> PostedDate acme_junior_dev \<noteq> PostedDate acme_junior_dev_again
   \<and> URL acme_junior_dev \<noteq> URL acme_junior_dev_again
   \<and> jobID_of acme_junior_dev = jobID_of acme_junior_dev_again
   \<and> addJob (addJob NewJobScraper acme_junior_dev) acme_junior_dev_again
     = addJob NewJobScraper acme_junior_dev
   \<and> nj_Platform acme_on_indeed = nj_Platform acme_on_indeed_again
   \<and> nj_Company acme_on_indeed = nj_Company acme_on_indeed_again
   \<and> nj_Title acme_on_indeed = nj_Title acme_on_indeed_again
   \<and> nj_URL acme_on_indeed \<noteq> nj_URL acme_on_indeed_again
   \<and> isNewJob_jobID acme_on_indeed = isNewJob_jobID acme_on_indeed_again
   \<and> nj_Platform acme_on_indeed \<noteq> nj_Platform acme_on_linkedin
   \<and> nj_Company acme_on_indeed = nj_Company acme_on_linkedin
   \<and> nj_Title acme_on_indeed = nj_Title acme_on_linkedin
   \<and> isNewJob_jobID acme_on_indeed \<noteq> isNewJob_jobID acme_on_linkedin
   \<and> fst (isNewJob (snd (isNewJob (Map.empty, Map.empty) False ''t0'' acme_on_indeed))
        False ''t1'' acme_on_linkedin)"
proof -
  note inst = identity_of_company_and_title [where a = acme_junior_dev
    and b = acme_junior_dev_again and js = NewJobScraper and p = acme_on_indeed
    and q = acme_on_indeed_again and u = acme_on_indeed and v = acme_on_linkedin
    and now = "''t0''" and now' = "''t1''"]
  have c: "ReplaceAll (ToLower (Company acme_junior_dev)) '' '' ''_''
     = ReplaceAll (ToLower (Company acme_junior_dev_again)) '' '' ''_''"
    by (simp add: acme_junior_dev_def acme_junior_dev_again_def)
  have t: "ReplaceAll (ToLower (Title acme_junior_dev)) '' '' ''_''
     = ReplaceAll (ToLower (Title acme_junior_dev_again)) '' '' ''_''"
    by (simp add: acme_junior_dev_def acme_junior_dev_again_def)
  have d: "Platform acme_junior_dev \<noteq> Platform acme_junior_dev_again"
    "Location acme_junior_dev \<noteq> Location acme_junior_dev_again"
    "Description acme_junior_dev \<noteq> Description acme_junior_dev_again"
    "Salary acme_junior_dev \<noteq> Salary acme_junior_dev_again"
    "PostedDate acme_junior_dev \<noteq> PostedDate acme_junior_dev_again"
    "URL acme_junior_dev \<noteq> URL acme_junior_dev_again"
    by (simp_all add: acme_junior_dev_def acme_junior_dev_again_def RemoteJob_zero_def)
  from inst c t have i: "jobID_of acme_junior_dev = jobID_of acme_junior_dev_again"
    and j: "addJob (addJob NewJobScraper acme_junior_dev) acme_junior_dev_again
     = addJob NewJobScraper acme_junior_dev"
    by blast+
  have n: "nj_Platform acme_on_indeed = nj_Platform acme_on_indeed_again"
    "nj_Company acme_on_indeed = nj_Company acme_on_indeed_again"
    "nj_Title acme_on_indeed = nj_Title acme_on_indeed_again"
    by (simp_all add: acme_on_indeed_again_def)
  have u: "nj_URL acme_on_indeed \<noteq> nj_URL acme_on_indeed_again"
    by (simp add: acme_on_indeed_again_def acme_on_indeed_def)
  from inst n have k: "isNewJob_jobID acme_on_indeed = isNewJob_jobID acme_on_indeed_again"
    by blast
  have m: "nj_Platform acme_on_indeed \<noteq> nj_Platform acme_on_linkedin"
    "nj_Company acme_on_indeed = nj_Company acme_on_linkedin"
    "nj_Title acme_on_indeed = nj_Title acme_on_linkedin"
    by (simp_all add: acme_on_linkedin_def acme_on_indeed_def)
  from inst m have o: "isNewJob_jobID acme_on_indeed \<noteq> isNewJob_jobID acme_on_linkedin"
    and w: "fst (isNewJob (snd (isNewJob (Map.empty, Map.empty) False ''t0'' acme_on_indeed))
        False ''t1'' acme_on_linkedin)"
    by blast+
  from c t d i j n u k m o w show ?thesis
    by (intro conjI)
qed

text \<open>
  C2, as stated, fails for \<open>isNewJob\<close>: the key starts with the platform, so one
  listing found on Indeed and on LinkedIn has two keys and is new both times.
\<close>

theorem isNewJob_keys_on_platform:
  "acme_on_linkedin = acme_on_indeed\<lparr> nj_Platform := ''LinkedIn'' \<rparr>
   \<and> nj_Company acme_on_linkedin = nj_Company acme_on_indeed
   \<and> nj_Title acme_on_linkedin = nj_Title acme_on_indeed
   \<and> isNewJob_jobID acme_on_indeed = ''Indeed-Acme-Junior Dev''
   \<and> isNewJob_jobID acme_on_linkedin = ''LinkedIn-Acme-Junior Dev''
   \<and> isNewJob_jobID acme_on_indeed \<noteq> isNewJob_jobID acme_on_linkedin
   \<and> fst (isNewJob (Map.empty, Map.empty) False ''t0'' acme_on_indeed)
   \<and> fst (isNewJob (snd (isNewJob (Map.empty, Map.empty) False ''t0'' acme_on_indeed))
        False ''t1'' acme_on_linkedin)"
  by code_simp

section \<open>Records without title or company\<close>

lemma addJob_nonempty:
  assumes "\<forall>r\<in>set (jobs js). Title r \<noteq> [] \<and> Company r \<noteq> []"
    and "Title job \<noteq> []" and "Company job \<noteq> []"
  shows "\<forall>r\<in>set (jobs (addJob js job)). Title r \<noteq> [] \<and> Company r \<noteq> []"
  using assms by (auto simp: addJob_def Let_def)

lemma guarded_addJob:
  assumes "h = (if title \<noteq> [] \<and> company \<noteq> [] then if c then addJob js job else js else js)"
    and "Title job = title" and "Company job = company"
  shows "(title = [] \<or> company = [] \<longrightarrow> h = js)
    \<and> (h = js \<or> title \<noteq> [] \<and> company \<noteq> [] \<and>
          (\<exists>job. Title job = title \<and> Company job = company \<and> h = addJob js job))"
  using assms by auto

lemma scrapeRemoteOK_step:
  "(title = [] \<or> company = [] \<longrightarrow> scrapeRemoteOK_OnHTML today js title company tags = js)
   \<and> (scrapeRemoteOK_OnHTML today js title company tags = js
      \<or> title \<noteq> [] \<and> company \<noteq> [] \<and>
        (\<exists>job. Title job = title \<and> Company job = company
           \<and> scrapeRemoteOK_OnHTML today js title company tags = addJob js job))"
  by (rule guarded_addJob, rule scrapeRemoteOK_OnHTML_def) simp_all

lemma scrapeWeWorkRemotely_step:
  "(title = [] \<or> company = [] \<longrightarrow> scrapeWeWorkRemotely_OnHTML today js title company location = js)
   \<and> (scrapeWeWorkRemotely_OnHTML today js title company location = js
      \<or> title \<noteq> [] \<and> company \<noteq> [] \<and>
        (\<exists>job. Title job = title \<and> Company job = company
           \<and> scrapeWeWorkRemotely_OnHTML today js title company location = addJob js job))"
  by (rule guarded_addJob, rule scrapeWeWorkRemotely_OnHTML_def) simp_all

lemma scrapeFlexJobs_step:
  "(title = [] \<or> company = [] \<longrightarrow> scrapeFlexJobs_OnHTML today js title company location = js)
   \<and> (scrapeFlexJobs_OnHTML today js title company location = js
      \<or> title \<noteq> [] \<and> company \<noteq> [] \<and>
        (\<exists>job. Title job = title \<and> Company job = company
           \<and> scrapeFlexJobs_OnHTML today js title company location = addJob js job))"
  by (rule guarded_addJob, rule scrapeFlexJobs_OnHTML_def) simp_all

lemma scrapeJustRemote_step:
  "(title = [] \<or> company = [] \<longrightarrow> scrapeJustRemote_OnHTML today js title company = js)
   \<and> (scrapeJustRemote_OnHTML today js title company = js
      \<or> title \<noteq> [] \<and> company \<noteq> [] \<and>
        (\<exists>job. Title job = title \<and> Company job = company
           \<and> scrapeJustRemote_OnHTML today js title company = addJob js job))"
  by (rule guarded_addJob, rule scrapeJustRemote_OnHTML_def) simp_all

lemma scrapeRemoteCo_step:
  "(title = [] \<or> company = [] \<longrightarrow> scrapeRemoteCo_OnHTML today js title company = js)
   \<and> (scrapeRemoteCo_OnHTML today js title company = js
      \<or> title \<noteq> [] \<and> company \<noteq> [] \<and>
        (\<exists>job. Title job = title \<and> Company job = company
           \<and> scrapeRemoteCo_OnHTML today js title company = addJob js job))"
  by (rule guarded_addJob, rule scrapeRemoteCo_OnHTML_def) simp_all

lemma OnHTML_step:
  "(listing_title l = [] \<or> listing_company l = [] \<longrightarrow> OnHTML js l = js)
   \<and> (OnHTML js l = js
      \<or> listing_title l \<noteq> [] \<and> listing_company l \<noteq> [] \<and>
        (\<exists>job. Title job = listing_title l \<and> Company job = listing_company l
           \<and> OnHTML js l = addJob js job))"
proof (cases l)
  case (RemoteOK today title company tags)
  then show ?thesis
    using scrapeRemoteOK_step [of title company today js tags] by simp
next
  case (WeWorkRemotely today title company location)
  then show ?thesis
    using scrapeWeWorkRemotely_step [of title company today js location] by simp
next
  case (FlexJobs today title company location)
  then show ?thesis
    using scrapeFlexJobs_step [of title company today js location] by simp
next
  case (JustRemote today title company)
  then show ?thesis
    using scrapeJustRemote_step [of title company today js] by simp
next
  case (RemoteCo today title company)
  then show ?thesis
    using scrapeRemoteCo_step [of title company today js] by simp
qed

lemma OnHTML_nonempty:
  assumes "\<forall>r\<in>set (jobs js). Title r \<noteq> [] \<and> Company r \<noteq> []"
  shows "\<forall>r\<in>set (jobs (OnHTML js l)). Title r \<noteq> [] \<and> Company r \<noteq> []"
proof -
  from OnHTML_step [of l js] consider "OnHTML js l = js"
    | job where "Title job \<noteq> []" "Company job \<noteq> []" "OnHTML js l = addJob js job"
    by metis
  then show ?thesis
  proof cases
    case 1
    with assms show ?thesis by simp
  next
    case 2
    with addJob_nonempty [OF assms, of job] show ?thesis by simp
  qed
qed

lemma foldl_OnHTML_nonempty:
  "\<forall>r\<in>set (jobs js). Title r \<noteq> [] \<and> Company r \<noteq> [] \<Longrightarrow>
   \<forall>r\<in>set (jobs (foldl OnHTML js listings)). Title r \<noteq> [] \<and> Company r \<noteq> []"
proof (induction listings arbitrary: js)
  case Nil
  then show ?case by simp
next
  case (Cons l listings)
  from Cons.IH [OF OnHTML_nonempty [OF Cons.prems, of l]] show ?case by simp
qed

lemma scrapeIndeed_step:
  "((if h2_a_span e = [] then h2_span e else h2_a_span e) = [] \<or> companyName e = [] \<longrightarrow>
      scrapeIndeed_OnHTML fjs e = fjs)
   \<and> (scrapeIndeed_OnHTML fjs e = fjs
      \<or> (\<exists>job. fj_Title job \<noteq> [] \<and> fj_Company job \<noteq> []
            \<and> fjs_jobs (scrapeIndeed_OnHTML fjs e) = fjs_jobs fjs @ [job]))"
  by (simp add: scrapeIndeed_OnHTML_def Let_def)

lemma scrapeIndeed_nonempty:
  assumes "\<forall>r\<in>set (fjs_jobs fjs). fj_Title r \<noteq> [] \<and> fj_Company r \<noteq> []"
  shows "\<forall>r\<in>set (fjs_jobs (scrapeIndeed_OnHTML fjs e)). fj_Title r \<noteq> [] \<and> fj_Company r \<noteq> []"
proof -
  from scrapeIndeed_step [of e fjs] consider "scrapeIndeed_OnHTML fjs e = fjs"
    | job where "fj_Title job \<noteq> []" "fj_Company job \<noteq> []"
        "fjs_jobs (scrapeIndeed_OnHTML fjs e) = fjs_jobs fjs @ [job]"
    by metis
  then show ?thesis
    using assms by cases simp_all
qed

lemma foldl_scrapeIndeed_nonempty:
  "\<forall>r\<in>set (fjs_jobs fjs). fj_Title r \<noteq> [] \<and> fj_Company r \<noteq> [] \<Longrightarrow>
   \<forall>r\<in>set (fjs_jobs (foldl scrapeIndeed_OnHTML fjs cards)). fj_Title r \<noteq> [] \<and> fj_Company r \<noteq> []"
proof (induction cards arbitrary: fjs)
  case Nil
  then show ?case by simp
next
  case (Cons e cards)
  from Cons.IH [OF scrapeIndeed_nonempty [OF Cons.prems, of e]] show ?case by simp
qed

lemma Scrape_discards:
  "Job_Title job = [] \<or> Job_Company job = [] \<Longrightarrow> Scrape_OnHTML js_jobs job = js_jobs"
  unfolding Scrape_OnHTML_def by (rule if_not_P) blast

lemma Scrape_nonempty:
  assumes "\<forall>r\<in>set js_jobs. Job_Title r \<noteq> [] \<and> Job_Company r \<noteq> []"
  shows "\<forall>r\<in>set (Scrape_OnHTML js_jobs job). Job_Title r \<noteq> [] \<and> Job_Company r \<noteq> []"
proof (cases "Job_Title job \<noteq> [] \<and> Job_Company job \<noteq> []")
  case True
  then have "Scrape_OnHTML js_jobs job = js_jobs @ [job]"
    unfolding Scrape_OnHTML_def by (rule if_P)
  with assms True show ?thesis by simp
next
  case False
  then have "Scrape_OnHTML js_jobs job = js_jobs"
    unfolding Scrape_OnHTML_def by (rule if_not_P)
  with assms show ?thesis by simp
qed

lemma foldl_Scrape_nonempty:
  "\<forall>r\<in>set js_jobs. Job_Title r \<noteq> [] \<and> Job_Company r \<noteq> [] \<Longrightarrow>
   \<forall>r\<in>set (foldl Scrape_OnHTML js_jobs found). Job_Title r \<noteq> [] \<and> Job_Company r \<noteq> []"
proof (induction found arbitrary: js_jobs)
  case Nil
  then show ?case by simp
next
  case (Cons job found)
  from Cons.IH [OF Scrape_nonempty [OF Cons.prems, of job]] show ?case by simp
qed

text \<open>
  C7. A listing whose title or company is empty leaves the scraper as it was, and no
  classifier is asked about it. If every record of the list has a title and a company,
  so has every record of the list after any sequence of callbacks. This holds for the
  five callbacks of 7advanced_remote_scraper.go, for the callback of \<open>scrapeIndeed\<close> in
  6fresher_remote_scraper.go and for the callback of \<open>Scrape\<close> in 3multipleplatform.go.
\<close>

theorem empty_listings_discarded:
  "(listing_title l = [] \<or> listing_company l = [] \<longrightarrow> OnHTML js l = js)
   \<and> ((\<forall>r\<in>set (jobs js). Title r \<noteq> [] \<and> Company r \<noteq> []) \<longrightarrow>
        (\<forall>r\<in>set (jobs (foldl OnHTML js listings)). Title r \<noteq> [] \<and> Company r \<noteq> []))
   \<and> ((if h2_a_span e = [] then h2_span e else h2_a_span e) = [] \<or> companyName e = [] \<longrightarrow>
        scrapeIndeed_OnHTML fjs e = fjs)
   \<and> ((\<forall>r\<in>set (fjs_jobs fjs). fj_Title r \<noteq> [] \<and> fj_Company r \<noteq> []) \<longrightarrow>
        (\<forall>r\<in>set (fjs_jobs (foldl scrapeIndeed_OnHTML fjs cards)).
           fj_Title r \<noteq> [] \<and> fj_Company r \<noteq> []))
   \<and> (Job_Title job = [] \<or> Job_Company job = [] \<longrightarrow> Scrape_OnHTML js_jobs job = js_jobs)
   \<and> ((\<forall>r\<in>set js_jobs. Job_Title r \<noteq> [] \<and> Job_Company r \<noteq> []) \<longrightarrow>
        (\<forall>r\<in>set (foldl Scrape_OnHTML js_jobs found). Job_Title r \<noteq> [] \<and> Job_Company r \<noteq> []))"
proof (intro conjI impI)
  assume "listing_title l = [] \<or> listing_company l = []"
  with OnHTML_step [of l js] show "OnHTML js l = js" by blast
next
  assume "\<forall>r\<in>set (jobs js). Title r \<noteq> [] \<and> Company r \<noteq> []"
  then show "\<forall>r\<in>set (jobs (foldl OnHTML js listings)). Title r \<noteq> [] \<and> Company r \<noteq> []"
    by (rule foldl_OnHTML_nonempty)
next
  assume "(if h2_a_span e = [] then h2_span e else h2_a_span e) = [] \<or> companyName e = []"
  with scrapeIndeed_step [of e fjs] show "scrapeIndeed_OnHTML fjs e = fjs" by blast
next
  assume "\<forall>r\<in>set (fjs_jobs fjs). fj_Title r \<noteq> [] \<and> fj_Company r \<noteq> []"
  then show "\<forall>r\<in>set (fjs_jobs (foldl scrapeIndeed_OnHTML fjs cards)).
      fj_Title r \<noteq> [] \<and> fj_Company r \<noteq> []"
    by (rule foldl_scrapeIndeed_nonempty)
next
  assume "Job_Title job = [] \<or> Job_Company job = []"
  then show "Scrape_OnHTML js_jobs job = js_jobs"
    by (rule Scrape_discards)
next
  assume "\<forall>r\<in>set js_jobs. Job_Title r \<noteq> [] \<and> Job_Company r \<noteq> []"
  then show "\<forall>r\<in>set (foldl Scrape_OnHTML js_jobs found). Job_Title r \<noteq> [] \<and> Job_Company r \<noteq> []"
    by (rule foldl_Scrape_nonempty)
qed

theorem empty_listings_discarded_witness:
  "listing_title (JustRemote ''2024-01-02'' [] ''Acme'') = []
   \<and> OnHTML NewJobScraper (JustRemote ''2024-01-02'' [] ''Acme'') = NewJobScraper
   \<and> jobs (foldl OnHTML NewJobScraper example_listings)
       = [RemoteJob_zero\<lparr> ID := ''acme_junior_dev'', Platform := ''RemoteOK'',
            Title := ''Junior Dev'', Company := ''Acme'', Location := ''Remote'',
            Description := ''golang'', IsRemote := True, IsFresher := True,
            URL := ''https://remoteok.io'', PostedDate := ''2024-01-02'' \<rparr>]
   \<and> list_all (\<lambda>r. Title r \<noteq> [] \<and> Company r \<noteq> [])
        (jobs (foldl OnHTML NewJobScraper example_listings))
   \<and> companyName card_without_company = []
   \<and> scrapeIndeed_OnHTML NewFresherJobScraper card_without_company = NewFresherJobScraper
   \<and> map fj_Title (fjs_jobs (foldl scrapeIndeed_OnHTML NewFresherJobScraper
        [card_without_company, card_junior_developer])) = [''Junior Developer'']
   \<and> list_all (\<lambda>r. fj_Title r \<noteq> [] \<and> fj_Company r \<noteq> [])
        (fjs_jobs (foldl scrapeIndeed_OnHTML NewFresherJobScraper
           [card_without_company, card_junior_developer]))
   \<and> Job_Title job_without_title = []
   \<and> Scrape_OnHTML [] job_without_title = []"
proof -
  note inst = empty_listings_discarded [of "JustRemote ''2024-01-02'' [] ''Acme''" NewJobScraper
    example_listings card_without_company NewFresherJobScraper
    "[card_without_company, card_junior_developer]" job_without_title "[]" "[]"]
  have a: "listing_title (JustRemote ''2024-01-02'' [] ''Acme'') = []"
    by simp
  from inst a have b: "OnHTML NewJobScraper (JustRemote ''2024-01-02'' [] ''Acme'') = NewJobScraper"
    by blast
  have c: "jobs (foldl OnHTML NewJobScraper example_listings)
       = [RemoteJob_zero\<lparr> ID := ''acme_junior_dev'', Platform := ''RemoteOK'',
            Title := ''Junior Dev'', Company := ''Acme'', Location := ''Remote'',
            Description := ''golang'', IsRemote := True, IsFresher := True,
            URL := ''https://remoteok.io'', PostedDate := ''2024-01-02'' \<rparr>]"
    by code_simp
  have "\<forall>r\<in>set (jobs NewJobScraper). Title r \<noteq> [] \<and> Company r \<noteq> []"
    by (simp add: NewJobScraper_def)
  with inst have "\<forall>r\<in>set (jobs (foldl OnHTML NewJobScraper example_listings)).
      Title r \<noteq> [] \<and> Company r \<noteq> []"
    by blast
  then have d: "list_all (\<lambda>r. Title r \<noteq> [] \<and> Company r \<noteq> [])
        (jobs (foldl OnHTML NewJobScraper example_listings))"
    by (simp only: list_all_iff)
  have e: "companyName card_without_company = []"
    by (simp add: card_without_company_def)
  from inst e have f: "scrapeIndeed_OnHTML NewFresherJobScraper card_without_company
      = NewFresherJobScraper"
    by blast
  have g: "map fj_Title (fjs_jobs (foldl scrapeIndeed_OnHTML NewFresherJobScraper
        [card_without_company, card_junior_developer])) = [''Junior Developer'']"
    by code_simp
  have "\<forall>r\<in>set (fjs_jobs NewFresherJobScraper). fj_Title r \<noteq> [] \<and> fj_Company r \<noteq> []"
    by (simp add: NewFresherJobScraper_def)
  with inst have "\<forall>r\<in>set (fjs_jobs (foldl scrapeIndeed_OnHTML NewFresherJobScraper
      [card_without_company, card_junior_developer])). fj_Title r \<noteq> [] \<and> fj_Company r \<noteq> []"
    by blast
  then have h: "list_all (\<lambda>r. fj_Title r \<noteq> [] \<and> fj_Company r \<noteq> [])
        (fjs_jobs (foldl scrapeIndeed_OnHTML NewFresherJobScraper
           [card_without_company, card_junior_developer]))"
    by (simp only: list_all_iff)
  have i: "Job_Title job_without_title = []"
    by (simp add: job_without_title_def)
  from inst i have j: "Scrape_OnHTML [] job_without_title = []"
    by blast
  from a b c d e f g h i j show ?thesis
    by (intro conjI)
qed

section \<open>Concurrent callers\<close>

lemma filter_update_out:
  "\<not> P (xs ! i) \<Longrightarrow> \<not> P y \<Longrightarrow> filter P (xs[i := y]) = filter P xs"
  by (induction xs arbitrary: i) (auto split: nat.splits)

lemma mset_filter_update_in:
  "i < length xs \<Longrightarrow> \<not> P (xs ! i) \<Longrightarrow> P y \<Longrightarrow>
   mset (map f (filter P (xs[i := y]))) = add_mset (f y) (mset (map f (filter P xs)))"
  by (induction xs arbitrary: i) (auto split: nat.splits)

text \<open>The effect of one step, by the place of the caller that moves.\<close>

lemma step_AtLock:
  assumes "step i s = Some s'" and "fst (callers s ! i) = AtLock"
  shows "i < length (callers s) \<and> \<not> jobsMutex s \<and> jobsMutex s' \<and> scraper s' = scraper s
    \<and> callers s' = (callers s)[i := (AtTest, snd (callers s ! i))]"
  using assms by (auto simp: step_def Let_def goto_def split: if_splits)

lemma step_AtTest:
  assumes "step i s = Some s'" and "fst (callers s ! i) = AtTest"
  shows "i < length (callers s) \<and> jobsMutex s' = jobsMutex s \<and> scraper s' = scraper s
    \<and> callers s' = (callers s)[i :=
         (if \<not> isSeen (scraper s) (jobID_of (snd (callers s ! i))) then AtAppend else AtUnlock,
          snd (callers s ! i))]"
  using assms by (auto simp: step_def Let_def goto_def split: if_splits)

lemma step_AtAppend:
  assumes "step i s = Some s'" and "fst (callers s ! i) = AtAppend"
  shows "i < length (callers s) \<and> jobsMutex s' = jobsMutex s
    \<and> scraper s' = (scraper s)\<lparr> jobs := jobs (scraper s) @
         [(snd (callers s ! i))\<lparr>ID := jobID_of (snd (callers s ! i))\<rparr>] \<rparr>
    \<and> callers s' = (callers s)[i := (AtMark, snd (callers s ! i))]"
  using assms by (auto simp: step_def Let_def goto_def split: if_splits)

lemma step_AtMark:
  assumes "step i s = Some s'" and "fst (callers s ! i) = AtMark"
  shows "i < length (callers s) \<and> jobsMutex s' = jobsMutex s
    \<and> scraper s' = (scraper s)\<lparr> seenJobs :=
         (seenJobs (scraper s))(jobID_of (snd (callers s ! i)) \<mapsto> True) \<rparr>
    \<and> callers s' = (callers s)[i := (AtLog, snd (callers s ! i))]"
  using assms by (auto simp: step_def Let_def goto_def split: if_splits)

lemma step_AtLog:
  assumes "step i s = Some s'" and "fst (callers s ! i) = AtLog"
  shows "i < length (callers s) \<and> jobsMutex s' = jobsMutex s
    \<and> scraper s' = (scraper s)\<lparr> logged := logged (scraper s) @
         [(Title (snd (callers s ! i)), Company (snd (callers s ! i)),
           Platform (snd (callers s ! i)))] \<rparr>
    \<and> callers s' = (callers s)[i := (AtUnlock, snd (callers s ! i))]"
  using assms by (auto simp: step_def Let_def goto_def split: if_splits)

lemma step_AtUnlock:
  assumes "step i s = Some s'" and "fst (callers s ! i) = AtUnlock"
  shows "i < length (callers s) \<and> \<not> jobsMutex s' \<and> scraper s' = scraper s
    \<and> callers s' = (callers s)[i := (Returned, snd (callers s ! i))]"
  using assms by (auto simp: step_def Let_def goto_def split: if_splits)

lemma step_Returned:
  assumes "step i s = Some s'"
  shows "fst (callers s ! i) \<noteq> Returned"
  using assms by (auto simp: step_def Let_def split: if_splits)

lemma outside_simps:
  "outside AtLock" "outside Returned" "\<not> outside AtTest" "\<not> outside AtAppend"
  "\<not> outside AtMark" "\<not> outside AtLog" "\<not> outside AtUnlock"
  by (simp_all add: outside_def)

lemma inside_not_outside: "inside l job base js \<Longrightarrow> \<not> outside l"
  by (cases l) (simp_all add: inside_def outside_def)

lemma holder:
  assumes "linearised js0 s order" and "i < length (callers s)"
    and "\<not> outside (fst (callers s ! i))"
  shows "jobsMutex s
    \<and> inside (fst (callers s ! i)) (snd (callers s ! i)) (foldl addJob js0 order) (scraper s)
    \<and> (\<forall>j<length (callers s). j \<noteq> i \<longrightarrow> outside (fst (callers s ! j)))"
proof -
  from assms have locked: "jobsMutex s"
    by (auto simp: linearised_def split: if_splits)
  with assms(1) obtain h where h: "h < length (callers s)"
    "inside (fst (callers s ! h)) (snd (callers s ! h)) (foldl addJob js0 order) (scraper s)"
    "\<forall>j<length (callers s). j \<noteq> h \<longrightarrow> outside (fst (callers s ! j))"
    by (auto simp: linearised_def)
  from h(3) assms(2,3) have "i = h"
    by blast
  with locked h show ?thesis
    by simp
qed

lemma returned_update_out:
  assumes "fst (cs ! i) \<noteq> Returned" and "l \<noteq> Returned"
  shows "filter (\<lambda>c. fst c = Returned) (cs[i := (l, job)]) = filter (\<lambda>c. fst c = Returned) cs"
  using assms by (intro filter_update_out) simp_all

lemma linearised_move:
  assumes lin: "linearised js0 s order" and i: "i < length (callers s)"
    and out: "\<not> outside (fst (callers s ! i))"
    and cs: "callers s' = (callers s)[i := (l, snd (callers s ! i))]"
    and mu: "jobsMutex s' = jobsMutex s"
    and ins: "inside l (snd (callers s ! i)) (foldl addJob js0 order) (scraper s')"
  shows "linearised js0 s' order"
proof -
  from holder [OF lin i out] have locked: "jobsMutex s"
    and others: "\<forall>j<length (callers s). j \<noteq> i \<longrightarrow> outside (fst (callers s ! j))"
    by simp_all
  from out have "fst (callers s ! i) \<noteq> Returned"
    by (auto simp: outside_def)
  moreover from ins have "l \<noteq> Returned"
    by (auto simp: inside_def)
  ultimately have "returned s' = returned s"
    by (simp add: returned_def cs returned_update_out)
  moreover from lin have "mset order = mset (returned s)"
    by (simp add: linearised_def)
  moreover have "i < length (callers s')"
    using i by (simp add: cs)
  moreover have "inside (fst (callers s' ! i)) (snd (callers s' ! i)) (foldl addJob js0 order) (scraper s')"
    using ins i by (simp add: cs)
  moreover have "\<forall>j<length (callers s'). j \<noteq> i \<longrightarrow> outside (fst (callers s' ! j))"
    using others by (simp add: cs)
  ultimately show ?thesis
    using locked mu unfolding linearised_def by auto
qed

lemma linearised_lock:
  assumes lin: "linearised js0 s order" and st: "step i s = Some s'"
    and at: "fst (callers s ! i) = AtLock"
  shows "linearised js0 s' order"
proof -
  from step_AtLock [OF st at] have i: "i < length (callers s)" and free: "\<not> jobsMutex s"
    and locked: "jobsMutex s'" and sc: "scraper s' = scraper s"
    and cs: "callers s' = (callers s)[i := (AtTest, snd (callers s ! i))]"
    by simp_all
  from lin free have base: "scraper s = foldl addJob js0 order"
    and others: "\<forall>j<length (callers s). outside (fst (callers s ! j))"
    and ms: "mset order = mset (returned s)"
    by (simp_all add: linearised_def)
  have "returned s' = returned s"
    using at by (simp add: returned_def cs returned_update_out)
  moreover have "i < length (callers s')"
    using i by (simp add: cs)
  moreover have "inside (fst (callers s' ! i)) (snd (callers s' ! i)) (foldl addJob js0 order) (scraper s')"
    using i by (simp add: cs sc base inside_def)
  moreover have "\<forall>j<length (callers s'). j \<noteq> i \<longrightarrow> outside (fst (callers s' ! j))"
    using others by (simp add: cs)
  ultimately show ?thesis
    using locked ms unfolding linearised_def by auto
qed

lemma linearised_unlock:
  assumes lin: "linearised js0 s order" and st: "step i s = Some s'"
    and at: "fst (callers s ! i) = AtUnlock"
  shows "linearised js0 s' (order @ [snd (callers s ! i)])"
proof -
  from step_AtUnlock [OF st at] have i: "i < length (callers s)" and free: "\<not> jobsMutex s'"
    and sc: "scraper s' = scraper s"
    and cs: "callers s' = (callers s)[i := (Returned, snd (callers s ! i))]"
    by simp_all
  from at have out: "\<not> outside (fst (callers s ! i))"
    by (simp add: outside_simps)
  from holder [OF lin i out] at have base: "scraper s = addJob (foldl addJob js0 order) (snd (callers s ! i))"
    and others: "\<forall>j<length (callers s). j \<noteq> i \<longrightarrow> outside (fst (callers s ! j))"
    by (simp_all add: inside_def)
  from lin have ms: "mset order = mset (returned s)"
    by (simp add: linearised_def)
  have "mset (returned s') = add_mset (snd (callers s ! i)) (mset (returned s))"
    unfolding returned_def cs using i at
    by (subst mset_filter_update_in) simp_all
  with ms have "mset (order @ [snd (callers s ! i)]) = mset (returned s')"
    by simp
  moreover have "scraper s' = foldl addJob js0 (order @ [snd (callers s ! i)])"
    by (simp add: sc base)
  moreover have "\<forall>j<length (callers s'). outside (fst (callers s' ! j))"
  proof (intro allI impI)
    fix j assume "j < length (callers s')"
    then show "outside (fst (callers s' ! j))"
      using others i by (cases "j = i") (simp_all add: cs outside_simps)
  qed
  ultimately show ?thesis
    using free unfolding linearised_def by auto
qed

lemma linearised_test:
  assumes lin: "linearised js0 s order" and st: "step i s = Some s'"
    and at: "fst (callers s ! i) = AtTest"
  shows "linearised js0 s' order"
proof -
  let ?job = "snd (callers s ! i)"
  let ?l = "if \<not> isSeen (scraper s) (jobID_of ?job) then AtAppend else AtUnlock"
  from step_AtTest [OF st at] have i: "i < length (callers s)"
    and mu: "jobsMutex s' = jobsMutex s" and sc: "scraper s' = scraper s"
    and cs: "callers s' = (callers s)[i := (?l, ?job)]"
    by simp_all
  from at have out: "\<not> outside (fst (callers s ! i))"
    by (simp add: outside_simps)
  from holder [OF lin i out] at have base: "scraper s = foldl addJob js0 order"
    by (simp add: inside_def)
  have "inside ?l ?job (foldl addJob js0 order) (scraper s')"
    by (simp add: inside_def sc base addJob_seen)
  with lin i out cs mu show ?thesis
    by (rule linearised_move)
qed

lemma linearised_append:
  assumes lin: "linearised js0 s order" and st: "step i s = Some s'"
    and at: "fst (callers s ! i) = AtAppend"
  shows "linearised js0 s' order"
proof -
  let ?job = "snd (callers s ! i)"
  from step_AtAppend [OF st at] have i: "i < length (callers s)"
    and mu: "jobsMutex s' = jobsMutex s"
    and sc: "scraper s' = (scraper s)\<lparr> jobs := jobs (scraper s) @ [?job\<lparr>ID := jobID_of ?job\<rparr>] \<rparr>"
    and cs: "callers s' = (callers s)[i := (AtMark, ?job)]"
    by simp_all
  from at have out: "\<not> outside (fst (callers s ! i))"
    by (simp add: outside_simps)
  from holder [OF lin i out] at have "inside AtAppend ?job (foldl addJob js0 order) (scraper s)"
    by simp
  then have "inside AtMark ?job (foldl addJob js0 order) (scraper s')"
    by (simp add: inside_def sc)
  with lin i out cs mu show ?thesis
    by (rule linearised_move)
qed

lemma linearised_mark:
  assumes lin: "linearised js0 s order" and st: "step i s = Some s'"
    and at: "fst (callers s ! i) = AtMark"
  shows "linearised js0 s' order"
proof -
  let ?job = "snd (callers s ! i)"
  from step_AtMark [OF st at] have i: "i < length (callers s)"
    and mu: "jobsMutex s' = jobsMutex s"
    and sc: "scraper s' = (scraper s)\<lparr> seenJobs := (seenJobs (scraper s))(jobID_of ?job \<mapsto> True) \<rparr>"
    and cs: "callers s' = (callers s)[i := (AtLog, ?job)]"
    by simp_all
  from at have out: "\<not> outside (fst (callers s ! i))"
    by (simp add: outside_simps)
  from holder [OF lin i out] at have "inside AtMark ?job (foldl addJob js0 order) (scraper s)"
    by simp
  then have "inside AtLog ?job (foldl addJob js0 order) (scraper s')"
    by (simp add: inside_def sc)
  with lin i out cs mu show ?thesis
    by (rule linearised_move)
qed

lemma linearised_log:
  assumes lin: "linearised js0 s order" and st: "step i s = Some s'"
    and at: "fst (callers s ! i) = AtLog"
  shows "linearised js0 s' order"
proof -
  let ?job = "snd (callers s ! i)"
  from step_AtLog [OF st at] have i: "i < length (callers s)"
    and mu: "jobsMutex s' = jobsMutex s"
    and sc: "scraper s' = (scraper s)\<lparr> logged := logged (scraper s) @
         [(Title ?job, Company ?job, Platform ?job)] \<rparr>"
    and cs: "callers s' = (callers s)[i := (AtUnlock, ?job)]"
    by simp_all
  from at have out: "\<not> outside (fst (callers s ! i))"
    by (simp add: outside_simps)
  from holder [OF lin i out] at have "inside AtLog ?job (foldl addJob js0 order) (scraper s)"
    by simp
  then have "inside AtUnlock ?job (foldl addJob js0 order) (scraper s')"
    by (simp add: inside_def sc addJob_def Let_def)
  with lin i out cs mu show ?thesis
    by (rule linearised_move)
qed

lemma linearised_step:
  assumes "linearised js0 s order" and "step i s = Some s'"
  shows "\<exists>order'. linearised js0 s' order'"
proof (cases "fst (callers s ! i)")
  case AtLock
  with assms show ?thesis by (blast intro: linearised_lock)
next
  case AtTest
  with assms show ?thesis by (blast intro: linearised_test)
next
  case AtAppend
  with assms show ?thesis by (blast intro: linearised_append)
next
  case AtMark
  with assms show ?thesis by (blast intro: linearised_mark)
next
  case AtLog
  with assms show ?thesis by (blast intro: linearised_log)
next
  case AtUnlock
  with assms show ?thesis by (blast intro: linearised_unlock)
next
  case Returned
  with step_Returned [OF assms(2)] show ?thesis by simp
qed

lemma linearised_start: "linearised js0 (start js0 calls) []"
  by (simp add: linearised_def start_def returned_def outside_simps filter_empty_conv)

lemma linearised_exec:
  assumes "\<exists>order. linearised js0 s order" and "exec schedule s = Some s'"
  shows "\<exists>order. linearised js0 s' order"
  using assms
proof (induction schedule arbitrary: s)
  case Nil
  then show ?case by simp
next
  case (Cons i schedule)
  from Cons.prems(2) obtain t where t: "step i s = Some t" and rest: "exec schedule t = Some s'"
    by (auto split: option.splits)
  from Cons.prems(1) t have "\<exists>order. linearised js0 t order"
    by (blast dest: linearised_step)
  from this rest show ?case
    by (rule Cons.IH)
qed

lemma step_jobs: "step i s = Some s' \<Longrightarrow> map snd (callers s') = map snd (callers s)"
  by (cases "fst (callers s ! i)")
     (auto simp: step_def Let_def goto_def map_update list_update_same_conv split: if_splits)

lemma exec_jobs: "exec schedule s = Some s' \<Longrightarrow> map snd (callers s') = map snd (callers s)"
proof (induction schedule arbitrary: s)
  case Nil
  then show ?case by simp
next
  case (Cons i schedule)
  from Cons.prems obtain t where t: "step i s = Some t" and rest: "exec schedule t = Some s'"
    by (auto split: option.splits)
  from Cons.IH [OF rest] step_jobs [OF t] show ?case
    by simp
qed

lemma finished_returned: "finished s \<Longrightarrow> returned s = map snd (callers s)"
  by (simp add: finished_def returned_def list_all_iff)

lemma finished_unlocked:
  assumes "linearised js0 s order" and "finished s"
  shows "scraper s = foldl addJob js0 order"
proof (cases "jobsMutex s")
  case True
  with assms(1) obtain h where "h < length (callers s)"
    "inside (fst (callers s ! h)) (snd (callers s ! h)) (foldl addJob js0 order) (scraper s)"
    by (auto simp: linearised_def)
  moreover from this(1) assms(2) have "fst (callers s ! h) = Returned"
    by (simp add: finished_def list_all_length)
  ultimately show ?thesis
    by (simp add: inside_def)
next
  case False
  with assms(1) show ?thesis
    by (simp add: linearised_def)
qed

text \<open>
  Every interleaving of the callers that lets all of them return leaves the scraper that
  the calls leave when made one after the other, in some order.
\<close>

lemma addJob_linearisable:
  assumes "exec schedule (start js0 calls) = Some s" and "finished s"
  shows "\<exists>order. mset order = mset calls \<and> scraper s = foldl addJob js0 order"
proof -
  from linearised_exec [OF _ assms(1)] linearised_start obtain order
    where lin: "linearised js0 s order"
    by blast
  from exec_jobs [OF assms(1)] have "map snd (callers s) = calls"
    by (simp add: start_def comp_def)
  with finished_returned [OF assms(2)] lin have "mset order = mset calls"
    by (simp add: linearised_def)
  with finished_unlocked [OF lin assms(2)] show ?thesis
    by blast
qed

lemma foldl_addJob_same:
  "\<forall>job'\<in>set order. jobID_of job' = jobID_of job \<Longrightarrow>
   foldl addJob (addJob js job) order = addJob js job"
proof (induction order)
  case Nil
  show ?case by simp
next
  case (Cons job' order)
  then have "isSeen (addJob js job) (jobID_of job')"
    by (simp add: isSeen_addJob)
  then have "addJob (addJob js job) job' = addJob js job"
    by (rule addJob_seen)
  with Cons show ?case
    by simp
qed

lemma step_enabled:
  assumes "i < length (callers s)" and "fst (callers s ! i) \<noteq> Returned"
    and "fst (callers s ! i) = AtLock \<longrightarrow> \<not> jobsMutex s"
  shows "step i s \<noteq> None"
  using assms by (cases "fst (callers s ! i)") (simp_all add: step_def Let_def)

lemma not_deadlocked:
  assumes lin: "linearised js0 s order" and "\<not> finished s"
  shows "\<exists>i. step i s \<noteq> None"
proof (cases "jobsMutex s")
  case True
  with lin obtain h where h: "h < length (callers s)"
    "inside (fst (callers s ! h)) (snd (callers s ! h)) (foldl addJob js0 order) (scraper s)"
    by (auto simp: linearised_def)
  from inside_not_outside [OF h(2)] have "fst (callers s ! h) \<noteq> Returned"
    and "fst (callers s ! h) \<noteq> AtLock"
    by (auto simp: outside_def)
  with h(1) have "step h s \<noteq> None"
    by (intro step_enabled) simp_all
  then show ?thesis ..
next
  case False
  from assms(2) obtain i where i: "i < length (callers s)" "fst (callers s ! i) \<noteq> Returned"
    by (auto simp: finished_def list_all_length)
  with False have "step i s \<noteq> None"
    by (intro step_enabled) simp_all
  then show ?thesis ..
qed

lemma rank_le: "rank l \<le> 6"
  by (cases l) (simp_all add: rank_def)

lemma progress_le: "progress s \<le> 6 * length (callers s)"
proof -
  have "sum_list (map (\<lambda>c. rank (fst c)) cs) \<le> 6 * length cs" for cs :: "(pc \<times> RemoteJob) list"
  proof (induction cs)
    case Nil
    show ?case by simp
  next
    case (Cons c cs)
    with rank_le [of "fst c"] show ?case by simp
  qed
  then show ?thesis
    by (simp add: progress_def)
qed

lemma progress_update:
  assumes "i < length cs" and "rank (fst (cs ! i)) < rank l"
  shows "sum_list (map (\<lambda>c. rank (fst c)) cs)
     < sum_list (map (\<lambda>c. rank (fst c)) (cs[i := (l, job)]))"
  using assms
proof (induction cs arbitrary: i)
  case Nil
  then show ?case by simp
next
  case (Cons c cs)
  then show ?case by (cases i) simp_all
qed

lemma progress_goto:
  assumes "i < length (callers s)" and "callers s' = (callers s)[i := (l, job)]"
    and "rank (fst (callers s ! i)) < rank l"
  shows "progress s < progress s' \<and> length (callers s') = length (callers s)"
  using assms by (simp add: progress_def progress_update)

lemma step_progress:
  assumes "step i s = Some s'"
  shows "progress s < progress s' \<and> length (callers s') = length (callers s)"
proof (cases "fst (callers s ! i)")
  case AtLock
  then have at: "fst (callers s ! i) = AtLock" .
  from step_AtLock [OF assms at] obtain l
    where "i < length (callers s)" and "callers s' = (callers s)[i := (l, snd (callers s ! i))]"
      and "rank (fst (callers s ! i)) < rank l"
    by (simp add: rank_def at)
  then show ?thesis
    by (rule progress_goto)
next
  case AtTest
  then have at: "fst (callers s ! i) = AtTest" .
  from step_AtTest [OF assms at] obtain l
    where "i < length (callers s)" and "callers s' = (callers s)[i := (l, snd (callers s ! i))]"
      and "rank (fst (callers s ! i)) < rank l"
    by (simp add: rank_def at)
  then show ?thesis
    by (rule progress_goto)
next
  case AtAppend
  then have at: "fst (callers s ! i) = AtAppend" .
  from step_AtAppend [OF assms at] obtain l
    where "i < length (callers s)" and "callers s' = (callers s)[i := (l, snd (callers s ! i))]"
      and "rank (fst (callers s ! i)) < rank l"
    by (simp add: rank_def at)
  then show ?thesis
    by (rule progress_goto)
next
  case AtMark
  then have at: "fst (callers s ! i) = AtMark" .
  from step_AtMark [OF assms at] obtain l
    where "i < length (callers s)" and "callers s' = (callers s)[i := (l, snd (callers s ! i))]"
      and "rank (fst (callers s ! i)) < rank l"
    by (simp add: rank_def at)
  then show ?thesis
    by (rule progress_goto)
next
  case AtLog
  then have at: "fst (callers s ! i) = AtLog" .
  from step_AtLog [OF assms at] obtain l
    where "i < length (callers s)" and "callers s' = (callers s)[i := (l, snd (callers s ! i))]"
      and "rank (fst (callers s ! i)) < rank l"
    by (simp add: rank_def at)
  then show ?thesis
    by (rule progress_goto)
next
  case AtUnlock
  then have at: "fst (callers s ! i) = AtUnlock" .
  from step_AtUnlock [OF assms at] obtain l
    where "i < length (callers s)" and "callers s' = (callers s)[i := (l, snd (callers s ! i))]"
      and "rank (fst (callers s ! i)) < rank l"
    by (simp add: rank_def at)
  then show ?thesis
    by (rule progress_goto)
next
  case Returned
  with step_Returned [OF assms] show ?thesis by simp
qed

lemma exec_progress:
  "exec schedule s = Some s' \<Longrightarrow>
   progress s + length schedule \<le> progress s' \<and> length (callers s') = length (callers s)"
proof (induction schedule arbitrary: s)
  case Nil
  then show ?case by simp
next
  case (Cons i schedule)
  from Cons.prems obtain t where t: "step i s = Some t" and rest: "exec schedule t = Some s'"
    by (auto split: option.splits)
  from Cons.IH [OF rest] step_progress [OF t] show ?case
    by simp
qed

lemma exec_bounded:
  assumes "exec schedule (start js0 calls) = Some s"
  shows "length schedule \<le> 6 * length calls"
proof -
  from exec_progress [OF assms] have "length schedule \<le> progress s"
    and "length (callers s) = length calls"
    by (simp_all add: start_def)
  with progress_le [of s] show ?thesis
    by simp
qed

lemma can_finish:
  assumes "linearised js0 s order"
  shows "\<exists>schedule s'. exec schedule s = Some s' \<and> finished s'"
  using assms
proof (induction "6 * length (callers s) - progress s" arbitrary: s order rule: less_induct)
  case less
  show ?case
  proof (cases "finished s")
    case True
    then have "exec [] s = Some s \<and> finished s"
      by simp
    then show ?thesis
      by blast
  next
    case False
    with not_deadlocked [OF less.prems] obtain i t where t: "step i s = Some t"
      by auto
    from step_progress [OF t] progress_le [of t]
    have "6 * length (callers t) - progress t < 6 * length (callers s) - progress s"
      by arith
    moreover from linearised_step [OF less.prems t] obtain order' where "linearised js0 t order'"
      by blast
    ultimately obtain schedule s' where "exec schedule t = Some s'" "finished s'"
      using less.hyps by blast
    with t have "exec (i # schedule) s = Some s' \<and> finished s'"
      by simp
    then show ?thesis
      by blast
  qed
qed

lemma exec_append:
  "exec (xs @ ys) s = (case exec xs s of None \<Rightarrow> None | Some t \<Rightarrow> exec ys t)"
  by (induction xs arbitrary: s) (auto split: option.splits)

text \<open>
  C3. Let any number of callers, at least one, call \<open>addJob\<close> concurrently with
  records of one identity \<open>k\<close>. In every interleaving in which all callers have returned,
  the scraper is the one that a single call of one of them leaves: when \<open>k\<close> was new,
  exactly one record, with ID \<open>k\<close>, has been appended and exactly one line logged.
  An interleaving in which not all callers have returned has a next step, every
  interleaving can be continued until all callers have returned, and none has more than
  six steps for each caller.
\<close>

theorem addJob_concurrent:
  assumes "exec schedule (start js calls) = Some s"
    and "calls \<noteq> []" and "\<forall>job\<in>set calls. jobID_of job = k"
  shows "(finished s \<longrightarrow>
           (\<exists>job\<in>set calls. scraper s = addJob js job
              \<and> (\<not> isSeen js k \<longrightarrow>
                   jobs (scraper s) = jobs js @ [job\<lparr>ID := k\<rparr>]
                   \<and> logged (scraper s) = logged js @ [(Title job, Company job, Platform job)])))
    \<and> (\<not> finished s \<longrightarrow> (\<exists>i. step i s \<noteq> None))
    \<and> (\<exists>rest s'. exec (schedule @ rest) (start js calls) = Some s' \<and> finished s')
    \<and> length schedule \<le> 6 * length calls"
proof (intro conjI impI)
  assume "finished s"
  with addJob_linearisable [OF assms(1)] obtain order
    where order: "mset order = mset calls" "scraper s = foldl addJob js order"
    by blast
  from order(1) have same: "set order = set calls"
    by (rule mset_eq_setD)
  with assms(3) have all: "\<forall>job\<in>set order. jobID_of job = k"
    by simp
  from same assms(2) obtain job rest where split: "order = job # rest"
    by (cases order) auto
  with all have rest: "\<forall>job'\<in>set rest. jobID_of job' = jobID_of job"
    and k: "jobID_of job = k"
    by simp_all
  from same split have mem: "job \<in> set calls"
    by auto
  from order(2) split foldl_addJob_same [OF rest, of js]
  have sc: "scraper s = addJob js job"
    by simp
  have "jobs (scraper s) = jobs js @ [job\<lparr>ID := k\<rparr>]
      \<and> logged (scraper s) = logged js @ [(Title job, Company job, Platform job)]"
    if "\<not> isSeen js k"
    using that k by (simp add: sc addJob_def Let_def)
  with sc mem show "\<exists>job\<in>set calls. scraper s = addJob js job
      \<and> (\<not> isSeen js k \<longrightarrow>
           jobs (scraper s) = jobs js @ [job\<lparr>ID := k\<rparr>]
           \<and> logged (scraper s) = logged js @ [(Title job, Company job, Platform job)])"
    by blast
next
  assume "\<not> finished s"
  moreover from linearised_exec [OF _ assms(1)] linearised_start obtain order
    where "linearised js s order"
    by blast
  ultimately show "\<exists>i. step i s \<noteq> None"
    by (blast intro: not_deadlocked)
next
  from linearised_exec [OF _ assms(1)] linearised_start obtain order
    where "linearised js s order"
    by blast
  then obtain rest s' where "exec rest s = Some s'" and "finished s'"
    by (blast dest: can_finish)
  with assms(1) have "exec (schedule @ rest) (start js calls) = Some s' \<and> finished s'"
    by (simp add: exec_append)
  then show "\<exists>rest s'. exec (schedule @ rest) (start js calls) = Some s' \<and> finished s'"
    by blast
next
  from assms(1) show "length schedule \<le> 6 * length calls"
    by (rule exec_bounded)
qed

theorem addJob_concurrent_witness:
  "\<not> Option.is_none (exec [1, 1, 1, 1, 1, 1, 0, 0, 0]
        (start NewJobScraper [acme_junior_dev, acme_junior_dev_again]))
   \<and> finished (the (exec [1, 1, 1, 1, 1, 1, 0, 0, 0]
        (start NewJobScraper [acme_junior_dev, acme_junior_dev_again])))
   \<and> jobID_of acme_junior_dev = ''acme_junior_dev''
   \<and> jobID_of acme_junior_dev_again = ''acme_junior_dev''
   \<and> \<not> isSeen NewJobScraper ''acme_junior_dev''
   \<and> jobs (scraper (the (exec [1, 1, 1, 1, 1, 1, 0, 0, 0]
        (start NewJobScraper [acme_junior_dev, acme_junior_dev_again]))))
       = [acme_junior_dev_again\<lparr>ID := ''acme_junior_dev''\<rparr>]
   \<and> scraper (the (exec [1, 1, 1, 1, 1, 1, 0, 0, 0]
        (start NewJobScraper [acme_junior_dev, acme_junior_dev_again])))
       = addJob NewJobScraper acme_junior_dev_again
   \<and> Option.is_none (exec [1, 1, 1, 0]
        (start NewJobScraper [acme_junior_dev, acme_junior_dev_again]))"
proof -
  let ?calls = "[acme_junior_dev, acme_junior_dev_again]"
  let ?e = "exec [1, 1, 1, 1, 1, 1, 0, 0, 0] (start NewJobScraper ?calls)"
  have some: "\<not> Option.is_none ?e"
    by code_simp
  then have e: "?e = Some (the ?e)"
    by (simp add: Option.is_none_def)
  have fin: "finished (the ?e)"
    by code_simp
  have ka: "jobID_of acme_junior_dev = ''acme_junior_dev''"
    by code_simp
  have kb: "jobID_of acme_junior_dev_again = ''acme_junior_dev''"
    by code_simp
  from ka kb have same: "\<forall>job\<in>set ?calls. jobID_of job = ''acme_junior_dev''"
    by simp
  have new: "\<not> isSeen NewJobScraper ''acme_junior_dev''"
    by (simp add: isSeen_def NewJobScraper_def)
  have j: "jobs (scraper (the ?e)) = [acme_junior_dev_again\<lparr>ID := ''acme_junior_dev''\<rparr>]"
    by code_simp
  have empty: "jobs NewJobScraper = []"
    by (simp add: NewJobScraper_def)
  have diff: "acme_junior_dev\<lparr>ID := ''acme_junior_dev''\<rparr>
      \<noteq> acme_junior_dev_again\<lparr>ID := ''acme_junior_dev''\<rparr>"
    by (simp add: acme_junior_dev_def acme_junior_dev_again_def RemoteJob_zero_def)
  have blocked: "Option.is_none (exec [1, 1, 1, 0] (start NewJobScraper ?calls))"
    by code_simp
  from addJob_concurrent [OF e _ same] fin new obtain job
    where job: "job \<in> set ?calls" "scraper (the ?e) = addJob NewJobScraper job"
      "jobs (scraper (the ?e)) = jobs NewJobScraper @ [job\<lparr>ID := ''acme_junior_dev''\<rparr>]"
    by blast
  from job(3) have "job\<lparr>ID := ''acme_junior_dev''\<rparr> = acme_junior_dev_again\<lparr>ID := ''acme_junior_dev''\<rparr>"
    by (simp only: j empty append_Nil list.inject)
  with job(1) diff have "job = acme_junior_dev_again"
    by auto
  with job(2) have sc: "scraper (the ?e) = addJob NewJobScraper acme_junior_dev_again"
    by simp
  from some fin ka kb new j sc blocked show ?thesis
    by (intro conjI)
qed

end
